theory Spec2Isabelle
  imports Complex_Main
begin

section \<open>Orbnav: the galaxy scene runtime (GalaxyCanvas)\<close>

text \<open>
  A shallow embedding of the scene component of Orbnav: the constellation builder, the
  pointer and pick handlers, the camera focus effect and the per-frame update.
  JavaScript numbers are modelled as mathematical reals (no rounding, no NaN, no
  infinities); every statement below is about that idealisation.
\<close>

subsection \<open>Vectors (the operations of THREE.Vector3 the component calls)\<close>

datatype vec3 = Vector3 (vx: real) (vy: real) (vz: real)

definition add_v :: "vec3 \<Rightarrow> vec3 \<Rightarrow> vec3" where
  "add_v a b = Vector3 (vx a + vx b) (vy a + vy b) (vz a + vz b)"

definition sub_v :: "vec3 \<Rightarrow> vec3 \<Rightarrow> vec3" where
  "sub_v a b = Vector3 (vx a - vx b) (vy a - vy b) (vz a - vz b)"

definition multiplyScalar :: "vec3 \<Rightarrow> real \<Rightarrow> vec3" where
  "multiplyScalar a s = Vector3 (vx a * s) (vy a * s) (vz a * s)"

definition addScaledVector :: "vec3 \<Rightarrow> vec3 \<Rightarrow> real \<Rightarrow> vec3" where
  "addScaledVector a b s = Vector3 (vx a + vx b * s) (vy a + vy b * s) (vz a + vz b * s)"

definition lengthSq :: "vec3 \<Rightarrow> real" where
  "lengthSq a = vx a * vx a + vy a * vy a + vz a * vz a"

definition length_v :: "vec3 \<Rightarrow> real" where
  "length_v a = sqrt (lengthSq a)"

definition distanceToSquared :: "vec3 \<Rightarrow> vec3 \<Rightarrow> real" where
  "distanceToSquared a b =
     (let dx = vx a - vx b; dy = vy a - vy b; dz = vz a - vz b
      in dx * dx + dy * dy + dz * dz)"

definition distanceTo :: "vec3 \<Rightarrow> vec3 \<Rightarrow> real" where
  "distanceTo a b = sqrt (distanceToSquared a b)"

definition lerp :: "vec3 \<Rightarrow> vec3 \<Rightarrow> real \<Rightarrow> vec3" where
  "lerp a b alpha =
     Vector3 (vx a + (vx b - vx a) * alpha) (vy a + (vy b - vy a) * alpha)
       (vz a + (vz b - vz a) * alpha)"

text \<open>
  \<open>divideScalar\<close> is where a division by zero can happen. JavaScript would produce
  infinities or NaN there; the model returns \<open>None\<close>, so that "no division by zero"
  is the statement that the result is \<open>Some\<close>.
\<close>

definition divideScalar :: "vec3 \<Rightarrow> real \<Rightarrow> vec3 option" where
  "divideScalar a s = (if s = 0 then None else Some (multiplyScalar a (1 / s)))"

text \<open>three.js: \<^verbatim>\<open>normalize() { return this.divideScalar( this.length() || 1 ) }\<close>.\<close>

definition normalize_v :: "vec3 \<Rightarrow> vec3 option" where
  "normalize_v a = divideScalar a (if length_v a = 0 then 1 else length_v a)"

text \<open>three.js: \<^verbatim>\<open>clamp( value, min, max ) = Math.max( min, Math.min( max, value ) )\<close>.\<close>

definition clamp :: "real \<Rightarrow> real \<Rightarrow> real \<Rightarrow> real" where
  "clamp v lo hi = max lo (min hi v)"

definition hypot :: "real \<Rightarrow> real \<Rightarrow> real" where
  "hypot a b = sqrt (a * a + b * b)"

subsection \<open>Constants\<close>

definition BASE_CAMERA_POSITION :: vec3 where
  "BASE_CAMERA_POSITION = Vector3 0 0 40"

definition FOCUS_DISTANCE :: real where
  "FOCUS_DISTANCE = 8"

definition FOCUS_DURATION :: real where
  "FOCUS_DURATION = 1.85"

definition DISTURB_RADIUS :: real where
  "DISTURB_RADIUS = 18"

definition DISTURB_INTENSITY :: real where
  "DISTURB_INTENSITY = 0.62"

definition dragThreshold :: real where
  "dragThreshold = 8"

subsection \<open>Label billboards (the label loop of \<open>animate\<close>)\<close>

definition label_scale :: "real \<Rightarrow> real" where
  "label_scale distance = clamp (3.1 - distance * 0.045) 0.72 2.35"

definition label_opacity :: "real \<Rightarrow> real" where
  "label_opacity distance = clamp (1.04 - distance * 0.012) 0.24 0.95"

text \<open>
  One label of the loop: the distance is measured from the camera to the label's world
  position; the sprite's scale becomes \<open>(aspect * scale, scale, 1)\<close>.
\<close>

definition label_update :: "vec3 \<Rightarrow> real \<Rightarrow> vec3 \<Rightarrow> vec3 \<times> real" where
  "label_update cameraPosition aspect labelWorld =
     (let distance = distanceTo cameraPosition labelWorld;
          scale = label_scale distance
      in (Vector3 (aspect * scale) scale 1, label_opacity distance))"

subsection \<open>Foreground galaxy particles (the particle loop of \<open>animate\<close>)\<close>

text \<open>
  One particle: its base position (a triple of \<open>galaxyBasePositions\<close>) and its entries of
  \<open>galaxyPhase\<close>, \<open>galaxySpeed\<close>, \<open>galaxyAmplitude\<close>, \<open>galaxyTwist\<close> and
  \<open>galaxyPulse\<close>.
\<close>

record galaxy_particle =
  galaxyBase :: vec3
  galaxyPhase :: real
  galaxySpeed :: real
  galaxyAmplitude :: real
  galaxyTwist :: real
  galaxyPulse :: real

text \<open>
  The ranges the construction loops draw from, with \<open>Math.random()\<close> in \<open>[0, 1)\<close>:
  the base position lies in the flattened disk of radius 46, the phase in \<open>[0, 2\<pi>)\<close>,
  the speed in \<open>[0.25, 1.45)\<close>, the amplitude in \<open>[0.08, 0.42)\<close>, the twist in
  \<open>[0.0018, 0.0108)\<close> and the pulse in \<open>[0.004, 0.022)\<close>.
\<close>

definition galaxy_ranges :: "galaxy_particle \<Rightarrow> bool" where
  "galaxy_ranges p \<longleftrightarrow>
     hypot (vx (galaxyBase p)) (vz (galaxyBase p)) < 46
     \<and> \<bar>vy (galaxyBase p)\<bar> \<le> 5.5 * (1 - hypot (vx (galaxyBase p)) (vz (galaxyBase p)) / 46)
     \<and> 0 \<le> galaxyPhase p \<and> galaxyPhase p < 2 * pi
     \<and> 0.25 \<le> galaxySpeed p \<and> galaxySpeed p < 1.45
     \<and> 0.08 \<le> galaxyAmplitude p \<and> galaxyAmplitude p < 0.42
     \<and> 0.0018 \<le> galaxyTwist p \<and> galaxyTwist p < 0.0108
     \<and> 0.004 \<le> galaxyPulse p \<and> galaxyPulse p < 0.022"

text \<open>The position \<open>(x, y, z)\<close> of the loop body before the disturbance block.\<close>

definition swirl_xyz :: "real \<Rightarrow> galaxy_particle \<Rightarrow> vec3" where
  "swirl_xyz elapsed p =
     (let baseX = vx (galaxyBase p);
          baseY = vy (galaxyBase p);
          baseZ = vz (galaxyBase p);
          radius = hypot baseX baseZ;
          phase = galaxyPhase p;
          speed = galaxySpeed p;
          swirl = sin (elapsed * speed + phase + radius * 0.22) * galaxyTwist p;
          swirlCos = cos swirl;
          swirlSin = sin swirl;
          pulse = 1 + sin (elapsed * (speed * 0.72) + phase * 1.7 + radius * 0.08) * galaxyPulse p;
          x = (baseX * swirlCos - baseZ * swirlSin) * pulse;
          z = (baseX * swirlSin + baseZ * swirlCos) * pulse;
          y = baseY + sin (elapsed * (speed * 1.38) + phase + radius * 0.19) * galaxyAmplitude p
      in Vector3 x y z)"

text \<open>
  The disturbance block. Its divisor \<open>dist\<close> is \<open>sqrt distSq + 0.0001\<close>, which is
  positive, so the divisions are written directly.
\<close>

definition disturb :: "real \<Rightarrow> real \<Rightarrow> vec3 \<Rightarrow> galaxy_particle \<Rightarrow> vec3 \<Rightarrow> vec3" where
  "disturb elapsed disturbWeight disturbCurrent p v =
     (if disturbWeight > 0.001 then
        (let dx = vx v - vx disturbCurrent;
             dy = vy v - vy disturbCurrent;
             dz = vz v - vz disturbCurrent;
             distSq = dx * dx + dy * dy + dz * dz;
             radiusSq = DISTURB_RADIUS * DISTURB_RADIUS
         in if distSq < radiusSq then
              (let dist = sqrt distSq + 0.0001;
                   falloff = 1 - dist / DISTURB_RADIUS;
                   force = falloff * falloff * DISTURB_INTENSITY * disturbWeight;
                   radius = hypot (vx (galaxyBase p)) (vz (galaxyBase p));
                   wave = sin (elapsed * 2.15 + galaxyPhase p + radius * 0.11)
               in Vector3 (vx v + (- dz / dist) * force)
                    (vy v + wave * force * 0.78)
                    (vz v + (dx / dist) * force))
            else v)
      else v)"

definition particle_position :: "real \<Rightarrow> real \<Rightarrow> vec3 \<Rightarrow> galaxy_particle \<Rightarrow> vec3" where
  "particle_position elapsed disturbWeight disturbCurrent p =
     disturb elapsed disturbWeight disturbCurrent p (swirl_xyz elapsed p)"

subsection \<open>Constellation builder (the \<open>curveSegments\<close> loop)\<close>

text \<open>An element of \<open>candidates\<close>: \<open>{ point, pointIndex, distance }\<close>.\<close>

record candidate =
  point :: vec3
  pointIndex :: nat
  distance :: real

text \<open>
  \<open>Array.prototype.sort\<close> is stable and the comparator is \<open>a.distance - b.distance\<close>:
  a stable sort by the key \<open>distance\<close>, which is what \<open>sort_key\<close> (insertion sort) is.
  \<open>slice(0, 2)\<close> is \<open>take 2\<close>.
\<close>

definition candidates :: "vec3 list \<Rightarrow> nat \<Rightarrow> candidate list" where
  "candidates sitePoints index =
     (let from = sitePoints ! index
      in take 2
          (sort_key distance
            (map (\<lambda>(pt, i). \<lparr>point = pt, pointIndex = i, distance = distanceToSquared from pt\<rparr>)
              (filter (\<lambda>(pt, i). i > index)
                (map (\<lambda>i. (sitePoints ! i, i)) [0..<length sitePoints])))))"

text \<open>The edges of the constellation: one pair \<open>(index, pointIndex)\<close> per curve, in order.\<close>

definition constellation_edges :: "vec3 list \<Rightarrow> (nat \<times> nat) list" where
  "constellation_edges sitePoints =
     concat (map (\<lambda>index. map (\<lambda>c. (index, pointIndex c)) (candidates sitePoints index))
       [0..<length sitePoints])"

text \<open>
  The normal of a curve: the normalized midpoint, replaced by the up-vector when its squared
  length is below \<open>0.0001\<close>.
\<close>

definition curveNormal :: "vec3 \<Rightarrow> vec3 option" where
  "curveNormal midpoint =
     (case normalize_v midpoint of
        None \<Rightarrow> None
      | Some n \<Rightarrow> Some (if lengthSq n < 0.0001 then Vector3 0 1 0 else n))"

text \<open>three.js: a quadratic Bezier curve and \<open>getPoints(divisions)\<close>, which samples it at
  the parameters \<open>d / divisions\<close> for \<open>d = 0, ..., divisions\<close>.\<close>

definition QuadraticBezier :: "real \<Rightarrow> real \<Rightarrow> real \<Rightarrow> real \<Rightarrow> real" where
  "QuadraticBezier t p0 p1 p2 = (1 - t) * (1 - t) * p0 + 2 * (1 - t) * t * p1 + t * t * p2"

definition getPoint :: "vec3 \<Rightarrow> vec3 \<Rightarrow> vec3 \<Rightarrow> real \<Rightarrow> vec3" where
  "getPoint v0 v1 v2 t =
     Vector3 (QuadraticBezier t (vx v0) (vx v1) (vx v2))
       (QuadraticBezier t (vy v0) (vy v1) (vy v2))
       (QuadraticBezier t (vz v0) (vz v1) (vz v2))"

definition getPoints :: "vec3 \<Rightarrow> vec3 \<Rightarrow> vec3 \<Rightarrow> nat \<Rightarrow> vec3 list" where
  "getPoints v0 v1 v2 divisions =
     map (\<lambda>d. getPoint v0 v1 v2 (real d / real divisions)) [0..<divisions + 1]"

text \<open>The body of the inner loop: the points one candidate appends to \<open>curveSegments\<close>.\<close>

definition curve_points :: "vec3 list \<Rightarrow> vec3 \<Rightarrow> candidate \<Rightarrow> vec3 list option" where
  "curve_points sitePoints from c =
     (let to = sitePoints ! pointIndex c;
          dist = sqrt (distance c);
          midpoint = multiplyScalar (add_v from to) 0.5
      in case curveNormal midpoint of
           None \<Rightarrow> None
         | Some normal \<Rightarrow>
             (let control = addScaledVector midpoint normal (0.2 * dist + 1.2);
                  sampledPoints = getPoints from control to 14
              in Some (concat (map (\<lambda>i. [sampledPoints ! i, sampledPoints ! (i + 1)])
                         [0..<length sampledPoints - 1]))))"

fun collect :: "'a list option list \<Rightarrow> 'a list option" where
  "collect [] = Some []"
| "collect (None # rest) = None"
| "collect (Some xs # rest) = (case collect rest of None \<Rightarrow> None | Some ys \<Rightarrow> Some (xs @ ys))"

definition curveSegments :: "vec3 list \<Rightarrow> vec3 list option" where
  "curveSegments sitePoints =
     collect (concat (map (\<lambda>index. map (curve_points sitePoints (sitePoints ! index))
                                    (candidates sitePoints index))
                [0..<length sitePoints]))"

subsection \<open>Sites, meshes and events\<close>

record SiteNode =
  site_id :: string
  site_name :: string
  url :: string
  color :: nat
  position :: vec3
  category :: string
  description :: "string option"

record HoverState =
  hover_site :: "SiteNode option"
  hover_x :: real
  hover_y :: real

text \<open>
  A node mesh is an object: it is compared by reference (\<open>===\<close>). The model gives each mesh
  the index of its site in \<open>sites\<close> as its reference, next to its \<open>userData.site\<close>.
\<close>

record NodeMesh =
  mesh_ref :: nat
  userData_site :: SiteNode

text \<open>The calls of the three callbacks of the component's props, in order.\<close>

datatype event =
    OnNodeSelect SiteNode
  | OnHoverChange HoverState
  | OnFocusComplete SiteNode

subsection \<open>Tweens (the part of gsap the component uses)\<close>

text \<open>
  \<open>gsap.to(target, vars)\<close> registers a tween that moves the three coordinates of its
  target to the given values over \<open>duration\<close> seconds, calls \<open>onComplete\<close> once when it
  reaches its end, and is then removed. \<open>kill()\<close> removes a tween at once, and its
  \<open>onComplete\<close> is never called. With \<open>overwrite: true\<close> the new tween kills every other
  tween of the same target. The easing curves are gsap's own: they are a parameter
  \<open>easing\<close> of the model, and at the end of a tween the target has exactly the end values.
  \<open>onUpdate\<close> is called each time the tween has written its target, the last time
  included, before \<open>onComplete\<close>.

  The only \<open>onComplete\<close> in the component is the one of the focus effect, a closure over
  \<open>focusSite\<close>; \<open>tw_onComplete = Some focusSite\<close> stands for it.
\<close>

datatype tween_target = CameraPosition | ControlsTarget | MeshScale nat

datatype ease = ExpoInOut | ExpoOut | DefaultEase

record tween =
  tw_target :: tween_target
  tw_to :: vec3
  tw_duration :: real
  tw_ease :: ease
  tw_onComplete :: "SiteNode option"
  tw_time :: real
  tw_start :: "vec3 option"

subsection \<open>The state of a mounted scene\<close>

record SceneRuntime =
  nodeMeshById :: "string \<Rightarrow> NodeMesh option"
  focusLocked :: bool
  pendingFocusId :: "string option"
  cameraTween :: "nat option"
  targetTween :: "nat option"

record NodeLabelItem =
  aspect :: real
  sprite_scale :: vec3
  material_opacity :: real

text \<open>
  The variables the handlers and the frame loop share: the closure variables of the mount
  effect, the properties of the camera, the controls and the meshes that are read or written,
  \<open>runtimeRef.current\<close>, gsap's active tweens and the callback calls made so far.
  The raycaster and the scene graph are not modelled: the first intersected mesh of a frame,
  the world positions and the unprojected pointer are inputs. Neither are the idle rotations
  and the float of the node groups, nor the orbiting, zooming and panning of the camera by
  the pointer that \<open>OrbitControls\<close> does itself.
\<close>

record scene =
  galaxy :: "galaxy_particle list"
  galaxyPositions :: "vec3 list"
  nodeLabels :: "NodeLabelItem list"
  currentHovered :: "NodeMesh option"
  pointerDown :: bool
  dragDistance :: real
  disturbWeightTarget :: real
  disturbWeight :: real
  disturbTarget :: vec3
  disturbCurrent :: vec3
  pointerDownAt :: "real \<times> real"
  pointerClient :: "real \<times> real"
  cursor :: string
  cameraPosition :: vec3
  controlsTarget :: vec3
  controlsEnabled :: bool
  meshScale :: "nat \<Rightarrow> vec3"
  runtimeRef :: "SceneRuntime option"
  tweens :: "(nat \<times> tween) list"
  nextTween :: nat
  emitted :: "event list"

definition emit :: "event \<Rightarrow> scene \<Rightarrow> scene" where
  "emit e s = s\<lparr>emitted := emitted s @ [e]\<rparr>"

subsubsection \<open>The orbit controls\<close>

definition minDistance :: real where
  "minDistance = 10"

definition maxDistance :: real where
  "maxDistance = 110"

text \<open>
  three.js: \<open>OrbitControls.update\<close> with no orbit, zoom or pan of its own pending (the
  model has none). It reads the camera's offset from the orbit target in spherical
  coordinates, clamps the radius into \<open>[minDistance, maxDistance]\<close> and writes the camera
  position back: the camera keeps its direction from the target, at the clamped distance.
  A camera exactly at the target is put \<open>minDistance\<close> above it. (The guard that keeps the
  polar angle \<open>1e-6\<close> away from the poles is left out.) The orbit target is not changed.
\<close>

definition controls_update :: "scene \<Rightarrow> scene" where
  "controls_update s =
     (let offset = sub_v (cameraPosition s) (controlsTarget s);
          radius = length_v offset;
          clamped = max minDistance (min maxDistance radius)
      in s\<lparr>cameraPosition :=
             (if radius = 0 then add_v (controlsTarget s) (Vector3 0 clamped 0)
              else addScaledVector (controlsTarget s) offset (clamped / radius))\<rparr>)"

subsubsection \<open>gsap\<close>

definition kill :: "nat option \<Rightarrow> scene \<Rightarrow> scene" where
  "kill h s =
     (case h of
        None \<Rightarrow> s
      | Some i \<Rightarrow> s\<lparr>tweens := filter (\<lambda>(j, tw). j \<noteq> i) (tweens s)\<rparr>)"

definition gsap_to ::
  "tween_target \<Rightarrow> vec3 \<Rightarrow> real \<Rightarrow> ease \<Rightarrow> bool \<Rightarrow> SiteNode option \<Rightarrow> scene \<Rightarrow> nat \<times> scene" where
  "gsap_to target dest duration e overwrite onComplete s =
     (let i = nextTween s;
          kept = (if overwrite then filter (\<lambda>(j, tw). tw_target tw \<noteq> target) (tweens s)
                  else tweens s);
          tw = \<lparr>tw_target = target, tw_to = dest, tw_duration = duration, tw_ease = e,
                tw_onComplete = onComplete, tw_time = 0, tw_start = None\<rparr>
      in (i, s\<lparr>tweens := kept @ [(i, tw)], nextTween := i + 1\<rparr>))"

definition read_target :: "tween_target \<Rightarrow> scene \<Rightarrow> vec3" where
  "read_target target s =
     (case target of
        CameraPosition \<Rightarrow> cameraPosition s
      | ControlsTarget \<Rightarrow> controlsTarget s
      | MeshScale m \<Rightarrow> meshScale s m)"

definition write_target :: "tween_target \<Rightarrow> vec3 \<Rightarrow> scene \<Rightarrow> scene" where
  "write_target target v s =
     (case target of
        CameraPosition \<Rightarrow> s\<lparr>cameraPosition := v\<rparr>
      | ControlsTarget \<Rightarrow> s\<lparr>controlsTarget := v\<rparr>
      | MeshScale m \<Rightarrow> s\<lparr>meshScale := (meshScale s)(m := v)\<rparr>)"

text \<open>
  The \<open>onComplete\<close> of the focus effect:
  \<^verbatim>\<open>if (runtimeRef.current?.pendingFocusId === focusSite.id) onFocusComplete(focusSite)\<close>.
\<close>

definition onComplete :: "SiteNode \<Rightarrow> scene \<Rightarrow> scene" where
  "onComplete focusSite s =
     (case runtimeRef s of
        None \<Rightarrow> s
      | Some runtime \<Rightarrow>
          if pendingFocusId runtime = Some (site_id focusSite)
          then emit (OnFocusComplete focusSite) s else s)"

text \<open>
  The \<open>onUpdate\<close> of a tween. The component gives \<open>onUpdate: controls.update()\<close> to the
  tweens of \<open>controls.target\<close>, in both branches of the focus effect, and to no other.
\<close>

definition onUpdate :: "tween \<Rightarrow> scene \<Rightarrow> scene" where
  "onUpdate tw s = (if tw_target tw = ControlsTarget then controls_update s else s)"

text \<open>One tween on one tick of gsap's ticker, \<open>dt\<close> seconds after the previous one.\<close>

definition tween_tick :: "(ease \<Rightarrow> real \<Rightarrow> real) \<Rightarrow> real \<Rightarrow> nat \<times> tween \<Rightarrow> scene \<Rightarrow> scene" where
  "tween_tick easing dt itw s =
     (let i = fst itw; tw = snd itw;
          start = (case tw_start tw of None \<Rightarrow> read_target (tw_target tw) s | Some v \<Rightarrow> v);
          t = tw_time tw + dt
      in if i \<notin> fst ` set (tweens s) then s
         else if t \<ge> tw_duration tw then
           (let s1 = onUpdate tw (write_target (tw_target tw) (tw_to tw) s);
                s2 = s1\<lparr>tweens := filter (\<lambda>(j, tw'). j \<noteq> i) (tweens s1)\<rparr>
            in case tw_onComplete tw of None \<Rightarrow> s2 | Some focusSite \<Rightarrow> onComplete focusSite s2)
         else
           (let v = lerp start (tw_to tw) (easing (tw_ease tw) (t / tw_duration tw));
                s1 = onUpdate tw (write_target (tw_target tw) v s)
            in s1\<lparr>tweens := map (\<lambda>(j, tw'). if j = i then (j, tw\<lparr>tw_time := t, tw_start := Some start\<rparr>)
                                             else (j, tw')) (tweens s1)\<rparr>))"

definition gsap_tick :: "(ease \<Rightarrow> real \<Rightarrow> real) \<Rightarrow> real \<Rightarrow> scene \<Rightarrow> scene" where
  "gsap_tick easing dt s = fold (tween_tick easing dt) (tweens s) s"

subsubsection \<open>Pointer and pick handlers\<close>

definition setHovered :: "NodeMesh option \<Rightarrow> scene \<Rightarrow> scene" where
  "setHovered nextHovered s =
     (if currentHovered s = nextHovered then s
      else
        (let s1 = (case currentHovered s of
                     None \<Rightarrow> s
                   | Some m \<Rightarrow> snd (gsap_to (MeshScale (mesh_ref m)) (Vector3 1 1 1) 0.25
                                      DefaultEase True None s));
             s2 = s1\<lparr>currentHovered := nextHovered\<rparr>
         in case currentHovered s2 of
              Some m \<Rightarrow>
                (let s3 = snd (gsap_to (MeshScale (mesh_ref m)) (Vector3 1.45 1.45 1.45) 0.25
                                 DefaultEase True None s2);
                     s4 = s3\<lparr>cursor := ''pointer''\<rparr>
                 in emit (OnHoverChange \<lparr>hover_site = Some (userData_site m),
                                          hover_x = fst (pointerClient s4),
                                          hover_y = snd (pointerClient s4)\<rparr>) s4)
            | None \<Rightarrow>
                emit (OnHoverChange \<lparr>hover_site = None, hover_x = 0, hover_y = 0\<rparr>) (s2\<lparr>cursor := ''default''\<rparr>)))"

text \<open>
  \<open>onPointerMove\<close>; \<open>disturbProject\<close> is the pointer unprojected through the camera (the
  result of \<open>Vector3.unproject\<close>). The result is \<open>None\<close> if normalizing the direction
  divided by zero.
\<close>

definition onPointerMove :: "real \<Rightarrow> real \<Rightarrow> vec3 \<Rightarrow> scene \<Rightarrow> scene option" where
  "onPointerMove clientX clientY disturbProject s =
     (let s1 = s\<lparr>pointerClient := (clientX, clientY)\<rparr>;
          s2 = (if pointerDown s1 then
                  (let dx = clientX - fst (pointerDownAt s1);
                       dy = clientY - snd (pointerDownAt s1)
                   in s1\<lparr>dragDistance := max (dragDistance s1) (hypot dx dy)\<rparr>)
                else s1)
      in case normalize_v (sub_v disturbProject (cameraPosition s2)) of
           None \<Rightarrow> None
         | Some disturbDirection \<Rightarrow>
             (let targetDistance = distanceTo (cameraPosition s2) (controlsTarget s2);
                  s3 = s2\<lparr>disturbTarget :=
                            addScaledVector (cameraPosition s2) disturbDirection targetDistance,
                          disturbWeightTarget := 1\<rparr>
              in Some (case currentHovered s3 of
                         Some m \<Rightarrow> emit (OnHoverChange \<lparr>hover_site = Some (userData_site m),
                                                          hover_x = fst (pointerClient s3),
                                                          hover_y = snd (pointerClient s3)\<rparr>) s3
                       | None \<Rightarrow> s3)))"

definition onPointerDown :: "real \<Rightarrow> real \<Rightarrow> scene \<Rightarrow> scene" where
  "onPointerDown clientX clientY s =
     s\<lparr>pointerDown := True, pointerDownAt := (clientX, clientY), dragDistance := 0\<rparr>"

definition onPointerUp :: "scene \<Rightarrow> scene" where
  "onPointerUp s = s\<lparr>pointerDown := False\<rparr>"

text \<open>\<open>onPointerLeave\<close> also moves \<open>pointerNdc\<close> off the canvas, so that later raycasts miss;
  the raycast's result is an input of the frame here.\<close>

definition onPointerLeave :: "scene \<Rightarrow> scene" where
  "onPointerLeave s = s\<lparr>pointerDown := False, disturbWeightTarget := 0\<rparr>"

definition onClick :: "scene \<Rightarrow> scene" where
  "onClick s =
     (if dragDistance s > dragThreshold then s\<lparr>dragDistance := 0\<rparr>
      else
        (case runtimeRef s of
           None \<Rightarrow> s
         | Some runtime \<Rightarrow>
             (if focusLocked runtime then s
              else case currentHovered s of
                     None \<Rightarrow> s
                   | Some m \<Rightarrow> emit (OnNodeSelect (userData_site m)) (s\<lparr>dragDistance := 0\<rparr>))))"

definition onControlStart :: "scene \<Rightarrow> scene" where
  "onControlStart s = setHovered None s"

subsubsection \<open>The camera focus effect\<close>

definition update_runtime :: "(SceneRuntime \<Rightarrow> SceneRuntime) \<Rightarrow> scene \<Rightarrow> scene" where
  "update_runtime f s = s\<lparr>runtimeRef := map_option f (runtimeRef s)\<rparr>"

text \<open>
  The approach direction: the vector from the focus target to the camera, replaced by
  \<open>(0, 0, 1)\<close> when its squared length is below \<open>0.0001\<close>, then normalized.
\<close>

definition approachDirection :: "vec3 \<Rightarrow> vec3 \<Rightarrow> vec3 option" where
  "approachDirection cameraPos focusTarget =
     (let d = sub_v cameraPos focusTarget;
          d1 = (if lengthSq d < 0.0001 then Vector3 0 0 1 else d)
      in normalize_v d1)"

text \<open>
  The second effect of the component, run for a value of the \<open>focusSite\<close> prop.
  \<open>getWorldPosition\<close> gives the world position of a mesh (the scene graph is not modelled).
  The result is \<open>None\<close> if normalizing the approach direction divided by zero.
\<close>

definition focus_effect :: "SiteNode option \<Rightarrow> (NodeMesh \<Rightarrow> vec3) \<Rightarrow> scene \<Rightarrow> scene option" where
  "focus_effect focusSite getWorldPosition s =
     (case runtimeRef s of
        None \<Rightarrow> Some s
      | Some runtime \<Rightarrow>
          (let s1 = kill (targetTween runtime) (kill (cameraTween runtime) s)
           in case focusSite of
                Some fs \<Rightarrow>
                  (let s2 = update_runtime
                              (\<lambda>r. r\<lparr>pendingFocusId := Some (site_id fs), focusLocked := True\<rparr>) s1;
                       s3 = setHovered None s2;
                       s4 = s3\<lparr>controlsEnabled := False\<rparr>;
                       focusTarget = (case nodeMeshById runtime (site_id fs) of
                                        None \<Rightarrow> position fs
                                      | Some targetNode \<Rightarrow> getWorldPosition targetNode)
                   in case approachDirection (cameraPosition s4) focusTarget of
                        None \<Rightarrow> None
                      | Some direction \<Rightarrow>
                          (let destination = addScaledVector focusTarget direction FOCUS_DISTANCE;
                               c = gsap_to CameraPosition destination FOCUS_DURATION ExpoInOut
                                     False None s4;
                               s5 = update_runtime (\<lambda>r. r\<lparr>cameraTween := Some (fst c)\<rparr>) (snd c);
                               t = gsap_to ControlsTarget focusTarget FOCUS_DURATION ExpoInOut
                                     False (Some fs) s5
                           in Some (update_runtime (\<lambda>r. r\<lparr>targetTween := Some (fst t)\<rparr>) (snd t))))
              | None \<Rightarrow>
                  (let s2 = update_runtime
                              (\<lambda>r. r\<lparr>pendingFocusId := None, focusLocked := False\<rparr>) s1;
                       s3 = s2\<lparr>controlsEnabled := True\<rparr>;
                       s4 = setHovered None s3;
                       s5 = emit (OnHoverChange \<lparr>hover_site = None, hover_x = 0, hover_y = 0\<rparr>) s4;
                       c = gsap_to CameraPosition BASE_CAMERA_POSITION 2.1 ExpoOut False None s5;
                       s6 = update_runtime (\<lambda>r. r\<lparr>cameraTween := Some (fst c)\<rparr>) (snd c);
                       t = gsap_to ControlsTarget (Vector3 0 0 0) 2.1 ExpoOut False None s6
                   in Some (update_runtime (\<lambda>r. r\<lparr>targetTween := Some (fst t)\<rparr>) (snd t)))))"

subsubsection \<open>The frame\<close>

text \<open>
  What a frame reads from outside the model: the clock's delta and elapsed time, the
  first mesh the raycast intersects (or none), and the world position of each label.
\<close>

record frame =
  frame_delta :: real
  frame_elapsed :: real
  intersect0 :: "NodeMesh option"
  labelWorld :: "nat \<Rightarrow> vec3"

text \<open>\<^verbatim>\<open>Boolean(runtime?.focusLocked)\<close>\<close>

definition isFocused :: "scene \<Rightarrow> bool" where
  "isFocused s = (case runtimeRef s of None \<Rightarrow> False | Some runtime \<Rightarrow> focusLocked runtime)"

definition animate :: "frame \<Rightarrow> scene \<Rightarrow> scene" where
  "animate f s =
     (let disturbBlend = min 1 (frame_delta f * 6);
          s1 = (if isFocused s then s\<lparr>disturbWeightTarget := 0\<rparr> else s);
          s2 = s1\<lparr>disturbWeight :=
                    disturbWeight s1 + (disturbWeightTarget s1 - disturbWeight s1) * disturbBlend,
                  disturbCurrent := lerp (disturbCurrent s1) (disturbTarget s1) disturbBlend\<rparr>;
          s3 = s2\<lparr>galaxyPositions :=
                    map (particle_position (frame_elapsed f) (disturbWeight s2) (disturbCurrent s2))
                      (galaxy s2)\<rparr>;
          s4 = (if \<not> isFocused s then setHovered (intersect0 f) s3
                else if currentHovered s3 \<noteq> None then setHovered None s3
                else s3);
          s5 = s4\<lparr>nodeLabels :=
                    map (\<lambda>(i, label).
                           (let u = label_update (cameraPosition s4) (aspect label) (labelWorld f i)
                            in label\<lparr>sprite_scale := fst u, material_opacity := snd u\<rparr>))
                      (enumerate 0 (nodeLabels s4))\<rparr>
      in controls_update s5)"

subsubsection \<open>Mounting, and runs of the scene\<close>

definition mount :: "SiteNode list \<Rightarrow> galaxy_particle list \<Rightarrow> scene" where
  "mount sites particles =
     \<lparr>galaxy = particles,
      galaxyPositions = map galaxyBase particles,
      nodeLabels = map (\<lambda>_. \<lparr>aspect = 512 / 120,
                               sprite_scale = Vector3 (512 / 120 * 1.1) 1.1 1,
                               material_opacity = 0.92\<rparr>) sites,
      currentHovered = None,
      pointerDown = False,
      dragDistance = 0,
      disturbWeightTarget = 0,
      disturbWeight = 0,
      disturbTarget = Vector3 0 0 0,
      disturbCurrent = Vector3 0 0 0,
      pointerDownAt = (0, 0),
      pointerClient = (0, 0),
      cursor = [],
      cameraPosition = BASE_CAMERA_POSITION,
      controlsTarget = Vector3 0 0 0,
      controlsEnabled = True,
      meshScale = (\<lambda>_. Vector3 1 1 1),
      runtimeRef = Some \<lparr>nodeMeshById =
                            map_of (rev (map (\<lambda>(i, st). (site_id st, \<lparr>mesh_ref = i, userData_site = st\<rparr>))
                                          (enumerate 0 sites))),
                          focusLocked = False,
                          pendingFocusId = None,
                          cameraTween = None,
                          targetTween = None\<rparr>,
      tweens = [],
      nextTween = 0,
      emitted = []\<rparr>"

text \<open>Consecutive frames with nothing else in between.\<close>

definition frames :: "frame list \<Rightarrow> scene \<Rightarrow> scene" where
  "frames fs s = fold animate fs s"

text \<open>What can happen to a mounted scene, one at a time (the page is single-threaded).\<close>

datatype input =
    PointerMove real real vec3
  | PointerDown real real
  | PointerUp
  | PointerLeave
  | Click
  | ControlStart
  | Frame frame
  | GsapTick real
  | FocusRequest "SiteNode option" "NodeMesh \<Rightarrow> vec3"

fun step :: "(ease \<Rightarrow> real \<Rightarrow> real) \<Rightarrow> input \<Rightarrow> scene \<Rightarrow> scene option" where
  "step easing (PointerMove clientX clientY disturbProject) s =
     onPointerMove clientX clientY disturbProject s"
| "step easing (PointerDown clientX clientY) s = Some (onPointerDown clientX clientY s)"
| "step easing PointerUp s = Some (onPointerUp s)"
| "step easing PointerLeave s = Some (onPointerLeave s)"
| "step easing Click s = Some (onClick s)"
| "step easing ControlStart s = Some (onControlStart s)"
| "step easing (Frame f) s = Some (animate f s)"
| "step easing (GsapTick dt) s = Some (gsap_tick easing dt s)"
| "step easing (FocusRequest focusSite getWorldPosition) s =
     focus_effect focusSite getWorldPosition s"

fun run :: "(ease \<Rightarrow> real \<Rightarrow> real) \<Rightarrow> input list \<Rightarrow> scene \<Rightarrow> scene option" where
  "run easing [] s = Some s"
| "run easing (i # is) s =
     (case step easing i s of None \<Rightarrow> None | Some s' \<Rightarrow> run easing is s')"

subsection \<open>Counting hover transitions\<close>

text \<open>
  The number of changes along a sequence of hovered nodes that starts from \<open>h\<close>: how many
  elements differ from their predecessor.
\<close>

fun transitions :: "'a \<Rightarrow> 'a list \<Rightarrow> nat" where
  "transitions h [] = 0"
| "transitions h (n # ns) = (if n = h then 0 else 1) + transitions n ns"

subsection \<open>Runs of a mounted scene: what is observed, and the states tweens go through\<close>

text \<open>The sites \<open>onFocusComplete\<close> was called with, in order, among the callback calls made.\<close>

fun focus_completions :: "event list \<Rightarrow> SiteNode list" where
  "focus_completions [] = []"
| "focus_completions (OnFocusComplete st # es) = st # focus_completions es"
| "focus_completions (e # es) = focus_completions es"

text \<open>An input that is not a focus request, with time not running backwards.\<close>

fun no_request :: "input \<Rightarrow> bool" where
  "no_request (FocusRequest focusSite getWorldPosition) = False"
| "no_request (GsapTick dt) = (0 \<le> dt)"
| "no_request i = True"

text \<open>The time that passes for gsap during a sequence of inputs.\<close>

fun tick_time :: "input \<Rightarrow> real" where
  "tick_time (GsapTick dt) = dt"
| "tick_time i = 0"

definition elapsed :: "input list \<Rightarrow> real" where
  "elapsed ins = sum_list (map tick_time ins)"

text \<open>
  One tick seen from one tween: whether the tween finishes in it, the tween after the tick
  if it does not, and the callback calls it makes if it does. The start value a tween
  records at its first tick plays no part in what follows, and \<open>unstarted\<close> forgets it.
\<close>

definition unstarted :: "nat \<times> tween \<Rightarrow> nat \<times> tween" where
  "unstarted itw = (fst itw, (snd itw)\<lparr>tw_start := None\<rparr>)"

definition finishes :: "real \<Rightarrow> nat \<times> tween \<Rightarrow> bool" where
  "finishes dt itw \<longleftrightarrow> tw_duration (snd itw) \<le> tw_time (snd itw) + dt"

definition advanced :: "real \<Rightarrow> nat \<times> tween \<Rightarrow> nat \<times> tween" where
  "advanced dt itw = (fst itw, (snd itw)\<lparr>tw_time := tw_time (snd itw) + dt, tw_start := None\<rparr>)"

definition fired :: "SceneRuntime option \<Rightarrow> nat \<times> tween \<Rightarrow> event list" where
  "fired r itw =
     (case tw_onComplete (snd itw) of
        None \<Rightarrow> []
      | Some focusSite \<Rightarrow>
          (case r of
             None \<Rightarrow> []
           | Some runtime \<Rightarrow>
               if pendingFocusId runtime = Some (site_id focusSite)
               then [OnFocusComplete focusSite] else []))"

text \<open>
  What holds of the tweens in every state a mounted scene reaches: the runtime exists, the
  active tweens have distinct handles, all of them handed out already, none has run its full
  duration, a tween of the camera position is the runtime's \<open>cameraTween\<close> and a tween of the
  orbit target its \<open>targetTween\<close>, and only tweens of the orbit target have a completion
  callback.
\<close>

definition owned :: "scene \<Rightarrow> bool" where
  "owned s \<longleftrightarrow>
     (\<exists>runtime. runtimeRef s = Some runtime
        \<and> distinct (map fst (tweens s))
        \<and> (\<forall>itw\<in>set (tweens s).
              fst itw < nextTween s
              \<and> tw_time (snd itw) < tw_duration (snd itw)
              \<and> (tw_target (snd itw) = CameraPosition \<longrightarrow> cameraTween runtime = Some (fst itw))
              \<and> (tw_target (snd itw) = ControlsTarget \<longrightarrow> targetTween runtime = Some (fst itw))
              \<and> (tw_onComplete (snd itw) \<noteq> None \<longrightarrow> tw_target (snd itw) = ControlsTarget))
        \<and> (\<forall>i. cameraTween runtime = Some i \<or> targetTween runtime = Some i \<longrightarrow> i < nextTween s))"

text \<open>The tweens right after the focus effect has killed the runtime's two: only those of
  the mesh scales are left.\<close>

definition scale_only :: "scene \<Rightarrow> bool" where
  "scale_only s \<longleftrightarrow>
     distinct (map fst (tweens s))
     \<and> (\<forall>itw\<in>set (tweens s).
           fst itw < nextTween s
           \<and> tw_time (snd itw) < tw_duration (snd itw)
           \<and> tw_onComplete (snd itw) = None
           \<and> tw_target (snd itw) \<noteq> CameraPosition
           \<and> tw_target (snd itw) \<noteq> ControlsTarget)"

text \<open>
  The transition to \<open>focusSite\<close> has run for \<open>t\<close> seconds: it is the pending focus, and the
  one tween of the orbit target is its tween, with its completion callback. And the state
  with no tween of the orbit target.
\<close>

definition in_flight :: "SiteNode \<Rightarrow> real \<Rightarrow> scene \<Rightarrow> bool" where
  "in_flight focusSite t s \<longleftrightarrow>
     owned s
     \<and> (\<exists>runtime itw. runtimeRef s = Some runtime
           \<and> pendingFocusId runtime = Some (site_id focusSite)
           \<and> filter (\<lambda>x. tw_target (snd x) = ControlsTarget) (tweens s) = [itw]
           \<and> tw_onComplete (snd itw) = Some focusSite
           \<and> tw_duration (snd itw) = FOCUS_DURATION
           \<and> tw_time (snd itw) = t)"

definition settled :: "scene \<Rightarrow> bool" where
  "settled s \<longleftrightarrow> owned s \<and> (\<forall>itw\<in>set (tweens s). tw_target (snd itw) \<noteq> ControlsTarget)"

text \<open>
  The one tween of \<open>g\<close> goes to \<open>dest\<close> over \<open>dur\<close> seconds and has run for \<open>t\<close> of them.
  The return to the base pose has run for \<open>t\<close> seconds when the camera position and the
  orbit target are both on their way, and is over when neither has a tween and both are
  there.
\<close>

definition moving :: "tween_target \<Rightarrow> vec3 \<Rightarrow> real \<Rightarrow> real \<Rightarrow> scene \<Rightarrow> bool" where
  "moving g dest dur t s \<longleftrightarrow>
     distinct (map fst (tweens s))
     \<and> t < dur
     \<and> (\<exists>itw. filter (\<lambda>x. tw_target (snd x) = g) (tweens s) = [itw]
           \<and> tw_to (snd itw) = dest \<and> tw_duration (snd itw) = dur \<and> tw_time (snd itw) = t)"

definition homing :: "real \<Rightarrow> scene \<Rightarrow> bool" where
  "homing t s \<longleftrightarrow>
     moving CameraPosition BASE_CAMERA_POSITION 2.1 t s
     \<and> moving ControlsTarget (Vector3 0 0 0) 2.1 t s"

definition home :: "scene \<Rightarrow> bool" where
  "home s \<longleftrightarrow>
     distinct (map fst (tweens s))
     \<and> filter (\<lambda>x. tw_target (snd x) = CameraPosition) (tweens s) = []
     \<and> filter (\<lambda>x. tw_target (snd x) = ControlsTarget) (tweens s) = []
     \<and> cameraPosition s = BASE_CAMERA_POSITION
     \<and> controlsTarget s = Vector3 0 0 0"

text \<open>
  What an input other than a tick and a focus request may change between \<open>s\<close> and \<open>s'\<close>:
  not the runtime, the orbit target or the tweens of the camera position and of the orbit
  target; it reports no focus completion, and it leaves a camera at the base pose around
  the origin there.
\<close>

definition quiet :: "scene \<Rightarrow> scene \<Rightarrow> bool" where
  "quiet s s' \<longleftrightarrow>
     runtimeRef s' = runtimeRef s
     \<and> controlsTarget s' = controlsTarget s
     \<and> filter (\<lambda>x. tw_target (snd x) = CameraPosition) (tweens s')
         = filter (\<lambda>x. tw_target (snd x) = CameraPosition) (tweens s)
     \<and> filter (\<lambda>x. tw_target (snd x) = ControlsTarget) (tweens s')
         = filter (\<lambda>x. tw_target (snd x) = ControlsTarget) (tweens s)
     \<and> (\<exists>es. emitted s' = emitted s @ es \<and> focus_completions es = [])
     \<and> (cameraPosition s = BASE_CAMERA_POSITION \<and> controlsTarget s = Vector3 0 0 0
          \<longrightarrow> cameraPosition s' = BASE_CAMERA_POSITION)"

subsection \<open>Example data\<close>

text \<open>Two particles on the axis of the disk, with phase \<open>\<pi>/2\<close> and with phase 0.\<close>

definition particle_q :: galaxy_particle where
  "particle_q = \<lparr>galaxyBase = Vector3 0 0 0, galaxyPhase = pi / 2, galaxySpeed = 0.25,
                  galaxyAmplitude = 0.08, galaxyTwist = 0.0018, galaxyPulse = 0.004\<rparr>"

definition particle_0 :: galaxy_particle where
  "particle_0 = \<lparr>galaxyBase = Vector3 0 3 0, galaxyPhase = 0, galaxySpeed = 0.25,
                  galaxyAmplitude = 0.08, galaxyTwist = 0.0018, galaxyPulse = 0.004\<rparr>"

text \<open>
  Two particles off the axis: for the first the swirl sine is 0 and the pulse sine is 1 at
  elapsed time 0, for the second the swirl sine is 1 and the pulse sine is 0.
\<close>

definition particle_pulse :: galaxy_particle where
  "particle_pulse = \<lparr>galaxyBase = Vector3 (200 / 49 * pi) 0 0, galaxyPhase = 5 / 49 * pi,
                      galaxySpeed = 0.25, galaxyAmplitude = 0.08, galaxyTwist = 0.0018,
                      galaxyPulse = 0.004\<rparr>"

definition particle_swirl :: galaxy_particle where
  "particle_swirl = \<lparr>galaxyBase = Vector3 (625 / 147 * pi) 0 0, galaxyPhase = 230 / 147 * pi,
                      galaxySpeed = 0.25, galaxyAmplitude = 0.08, galaxyTwist = 0.0018,
                      galaxyPulse = 0.004\<rparr>"

text \<open>Four node positions; the last two are equally far from the first.\<close>

definition points4 :: "vec3 list" where
  "points4 = [Vector3 0 0 0, Vector3 1 0 0, Vector3 0 2 0, Vector3 0 0 2]"

definition site_a :: SiteNode where
  "site_a = \<lparr>site_id = ''a'', site_name = ''Alpha'', url = ''https://a.example'', color = 0,
             position = Vector3 3 0 4, category = ''tools'', description = None\<rparr>"

definition site_b :: SiteNode where
  "site_b = \<lparr>site_id = ''b'', site_name = ''Beta'', url = ''https://b.example'', color = 1,
             position = Vector3 0 0 2, category = ''tools'', description = None\<rparr>"

definition mesh_a :: NodeMesh where
  "mesh_a = \<lparr>mesh_ref = 0, userData_site = site_a\<rparr>"

definition mesh_b :: NodeMesh where
  "mesh_b = \<lparr>mesh_ref = 1, userData_site = site_b\<rparr>"

text \<open>
  The scene mounted with the two example sites and no particles, a linear easing, and the
  world position of a mesh taken to be its site's position.
\<close>

definition scene_ab :: scene where
  "scene_ab = mount [site_a, site_b] []"

definition linear :: "ease \<Rightarrow> real \<Rightarrow> real" where
  "linear e p = p"

definition site_position :: "NodeMesh \<Rightarrow> vec3" where
  "site_position m = position (userData_site m)"

definition frame_at :: "real \<Rightarrow> real \<Rightarrow> NodeMesh option \<Rightarrow> frame" where
  "frame_at dt t h = \<lparr>frame_delta = dt, frame_elapsed = t, intersect0 = h,
                       labelWorld = (\<lambda>_. Vector3 0 0 0)\<rparr>"

subsection \<open>Label scale and opacity\<close>

lemma distanceTo_nonneg: "0 \<le> distanceTo a b"
  by (simp add: distanceTo_def distanceToSquared_def Let_def)

text \<open>
  C8. The per-frame label scale and opacity do not increase when the camera-to-label
  distance grows, and stay inside their clamp bounds, scale in [0.72, 2.35] and opacity
  in [0.24, 0.95], for every distance (in particular for every distance from 0 up).
\<close>

theorem label_scale_opacity_monotone_bounded:
  "(\<forall>d1 d2. d1 \<le> d2 \<longrightarrow> label_scale d2 \<le> label_scale d1 \<and> label_opacity d2 \<le> label_opacity d1)
   \<and> (\<forall>d. 0.72 \<le> label_scale d \<and> label_scale d \<le> 2.35
          \<and> 0.24 \<le> label_opacity d \<and> label_opacity d \<le> 0.95)
   \<and> (\<forall>cam aspect w. snd (label_update cam aspect w) = label_opacity (distanceTo cam w)
          \<and> vy (fst (label_update cam aspect w)) = label_scale (distanceTo cam w)
          \<and> 0 \<le> distanceTo cam w)"
proof (intro conjI allI impI)
  fix d1 d2 :: real
  assume le: "d1 \<le> d2"
  show "label_scale d2 \<le> label_scale d1"
    using le by (simp add: label_scale_def clamp_def min_def max_def)
  show "label_opacity d2 \<le> label_opacity d1"
    using le by (simp add: label_opacity_def clamp_def min_def max_def)
next
  fix d :: real
  show "0.72 \<le> label_scale d" by (simp add: label_scale_def clamp_def min_def max_def)
  show "label_scale d \<le> 2.35" by (simp add: label_scale_def clamp_def min_def max_def)
  show "0.24 \<le> label_opacity d" by (simp add: label_opacity_def clamp_def min_def max_def)
  show "label_opacity d \<le> 0.95" by (simp add: label_opacity_def clamp_def min_def max_def)
next
  fix cam w :: vec3 and aspect :: real
  show "snd (label_update cam aspect w) = label_opacity (distanceTo cam w)"
    by (simp add: label_update_def Let_def)
  show "vy (fst (label_update cam aspect w)) = label_scale (distanceTo cam w)"
    by (simp add: label_update_def Let_def)
  show "0 \<le> distanceTo cam w" by (rule distanceTo_nonneg)
qed

theorem label_scale_opacity_monotone_bounded_witness:
  "(10::real) \<le> 100
   \<and> label_scale 100 \<le> label_scale 10 \<and> label_opacity 100 \<le> label_opacity 10
   \<and> label_scale 10 = 2.35 \<and> label_scale 100 = 0.72
   \<and> label_opacity 10 = 0.92 \<and> label_opacity 100 = 0.24"
proof -
  have le: "(10::real) \<le> 100" by simp
  from label_scale_opacity_monotone_bounded
  have "(10::real) \<le> 100 \<longrightarrow>
          label_scale 100 \<le> label_scale 10 \<and> label_opacity 100 \<le> label_opacity 10"
    by blast
  with le have "label_scale 100 \<le> label_scale 10 \<and> label_opacity 100 \<le> label_opacity 10"
    by blast
  then show ?thesis
    by (simp add: label_scale_def label_opacity_def clamp_def)
qed

subsection \<open>What the orbit controls leave alone\<close>

lemma controls_update_frame:
  "tweens (controls_update s) = tweens s"
  "nextTween (controls_update s) = nextTween s"
  "runtimeRef (controls_update s) = runtimeRef s"
  "emitted (controls_update s) = emitted s"
  "controlsTarget (controls_update s) = controlsTarget s"
  "meshScale (controls_update s) = meshScale s"
  "currentHovered (controls_update s) = currentHovered s"
  "pointerClient (controls_update s) = pointerClient s"
  "cursor (controls_update s) = cursor s"
  "disturbWeight (controls_update s) = disturbWeight s"
  "disturbWeightTarget (controls_update s) = disturbWeightTarget s"
  by (simp_all add: controls_update_def Let_def)

subsection \<open>Disturbance weight\<close>

lemma setHovered_keeps_disturbance:
  "runtimeRef (setHovered h s) = runtimeRef s"
  "disturbWeight (setHovered h s) = disturbWeight s"
  "disturbWeightTarget (setHovered h s) = disturbWeightTarget s"
  by (simp_all add: setHovered_def gsap_to_def emit_def Let_def split: option.splits)

lemma animate_runtimeRef: "runtimeRef (animate f s) = runtimeRef s"
  by (simp add: animate_def Let_def controls_update_frame setHovered_keeps_disturbance)

lemma animate_isFocused: "isFocused (animate f s) = isFocused s"
  by (simp add: isFocused_def animate_runtimeRef)

lemma animate_disturbWeightTarget:
  "disturbWeightTarget (animate f s) = (if isFocused s then 0 else disturbWeightTarget s)"
  by (simp add: animate_def Let_def controls_update_frame setHovered_keeps_disturbance)

lemma animate_disturbWeight:
  "disturbWeight (animate f s) =
     disturbWeight s
       + ((if isFocused s then 0 else disturbWeightTarget s) - disturbWeight s)
         * min 1 (frame_delta f * 6)"
  by (simp add: animate_def Let_def controls_update_frame setHovered_keeps_disturbance)

lemma settling_animate:
  "disturbWeightTarget s = 0 \<or> isFocused s \<Longrightarrow>
   disturbWeightTarget (animate f s) = 0 \<or> isFocused (animate f s)"
  by (auto simp: animate_disturbWeightTarget animate_isFocused)

lemma settling_frames:
  "disturbWeightTarget s = 0 \<or> isFocused s \<Longrightarrow>
   disturbWeightTarget (frames fs s) = 0 \<or> isFocused (frames fs s)"
proof (induction fs arbitrary: s)
  case Nil
  then show ?case by (simp add: frames_def)
next
  case (Cons f fs)
  from Cons.IH [OF settling_animate [OF Cons.prems]]
  show ?case by (simp add: frames_def)
qed

lemma settling_step:
  "disturbWeightTarget s = 0 \<or> isFocused s \<Longrightarrow>
   disturbWeight (animate f s) = disturbWeight s * (1 - min 1 (frame_delta f * 6))"
  by (auto simp: animate_disturbWeight algebra_simps)

lemma frames_snoc: "frames (fs @ [f]) s = animate f (frames fs s)"
  by (simp add: frames_def)

lemma frames_weight_range:
  assumes "disturbWeightTarget s = 0 \<or> isFocused s" and "0 \<le> disturbWeight s"
    and "\<forall>g\<in>set fs. 0 < frame_delta g"
  shows "0 \<le> disturbWeight (frames fs s) \<and> disturbWeight (frames fs s) \<le> disturbWeight s"
  using assms(3)
proof (induction fs rule: rev_induct)
  case Nil
  then show ?case using assms(2) by (simp add: frames_def)
next
  case (snoc f fs)
  let ?w = "disturbWeight (frames fs s)"
  let ?k = "1 - min 1 (frame_delta f * 6)"
  have ih: "0 \<le> ?w" "?w \<le> disturbWeight s" using snoc by simp_all
  have k: "0 \<le> ?k" "?k \<le> 1" using snoc.prems by (simp_all add: min_def)
  have eq: "disturbWeight (frames (fs @ [f]) s) = ?w * ?k"
    using settling_step [OF settling_frames [OF assms(1)]] by (simp add: frames_snoc)
  have "?w * ?k \<le> ?w * 1" using ih(1) k(2) by (rule mult_left_mono[rotated])
  then show ?case using eq ih k(1) by simp
qed

lemma frames_weight_geometric:
  assumes "disturbWeightTarget s = 0 \<or> isFocused s" and "0 \<le> disturbWeight s"
    and "0 < d" and "\<forall>g\<in>set fs. d \<le> frame_delta g"
  shows "disturbWeight (frames fs s) \<le> disturbWeight s * (1 - min 1 (d * 6)) ^ length fs"
  using assms(4)
proof (induction fs rule: rev_induct)
  case Nil
  then show ?case by (simp add: frames_def)
next
  case (snoc f fs)
  let ?w = "disturbWeight (frames fs s)"
  let ?k = "1 - min 1 (frame_delta f * 6)"
  let ?q = "1 - min 1 (d * 6)"
  have pos: "\<forall>g\<in>set fs. 0 < frame_delta g" using snoc.prems assms(3) by fastforce
  have w0: "0 \<le> ?w" using frames_weight_range [OF assms(1,2) pos] by simp
  have ih: "?w \<le> disturbWeight s * ?q ^ length fs" using snoc by simp
  have df: "d \<le> frame_delta f" using snoc.prems by simp
  then have k: "0 \<le> ?k" "?k \<le> ?q" using assms(3) by (simp_all add: min_def)
  have eq: "disturbWeight (frames (fs @ [f]) s) = ?w * ?k"
    using settling_step [OF settling_frames [OF assms(1)]] by (simp add: frames_snoc)
  have "?w * ?k \<le> ?w * ?q" using w0 k(2) by (rule mult_left_mono[rotated])
  also have "\<dots> \<le> (disturbWeight s * ?q ^ length fs) * ?q"
    using ih k by (intro mult_right_mono) auto
  finally show ?case using eq by (simp add: mult_ac)
qed

lemma frames_weight_small:
  assumes "disturbWeightTarget s = 0 \<or> isFocused s"
    and "0 \<le> disturbWeight s" and "disturbWeight s \<le> 1" and "0 < d" and "0 < e"
  shows "\<exists>N. \<forall>gs. N \<le> length gs \<and> (\<forall>g\<in>set gs. d \<le> frame_delta g)
               \<longrightarrow> disturbWeight (frames gs s) < e"
proof -
  let ?q = "1 - min 1 (d * 6)"
  have q: "0 \<le> ?q" "?q < 1" using assms(4) by (simp_all add: min_def)
  obtain N where N: "?q ^ N < e" using real_arch_pow_inv [OF assms(5) q(2)] by blast
  have "disturbWeight (frames gs s) < e"
    if len: "N \<le> length gs" and ds: "\<forall>g\<in>set gs. d \<le> frame_delta g" for gs
  proof -
    have "disturbWeight (frames gs s) \<le> disturbWeight s * ?q ^ length gs"
      by (rule frames_weight_geometric [OF assms(1,2,4) ds])
    also have "\<dots> \<le> 1 * ?q ^ length gs"
      using assms(3) q(1) by (intro mult_right_mono) auto
    also have "\<dots> \<le> ?q ^ N"
      using power_decreasing [OF len q(1)] q(2) by simp
    finally show ?thesis using N by simp
  qed
  then show ?thesis by blast
qed

text \<open>
  C7. While the disturbance-weight target is 0 (the pointer has left the canvas) or the
  camera is focus-locked, a frame with a positive delta multiplies the disturbance weight by
  \<open>1 - min 1 (6 * delta)\<close>, a factor in \<open>[0, 1)\<close>. So, from a weight in \<open>[0, 1]\<close>, over any
  frames with positive deltas the weight stays in \<open>[0, 1]\<close>, never increases, and strictly
  decreases while it is positive; and it converges to 0: with deltas of at least \<open>d > 0\<close>
  it is at most the starting weight times \<open>(1 - min 1 (6 * d)) ^ n\<close> after \<open>n\<close> frames,
  hence below any positive bound after enough frames.
\<close>

theorem disturb_weight_decays:
  assumes "disturbWeightTarget s = 0 \<or> isFocused s"
    and "0 \<le> disturbWeight s" and "disturbWeight s \<le> 1"
    and "\<forall>g\<in>set fs. 0 < frame_delta g" and "0 < frame_delta f"
  shows "0 \<le> 1 - min 1 (frame_delta f * 6) \<and> 1 - min 1 (frame_delta f * 6) < 1
    \<and> disturbWeight (animate f (frames fs s))
        = disturbWeight (frames fs s) * (1 - min 1 (frame_delta f * 6))
    \<and> 0 \<le> disturbWeight (frames fs s) \<and> disturbWeight (frames fs s) \<le> 1
    \<and> disturbWeight (animate f (frames fs s)) \<le> disturbWeight (frames fs s)
    \<and> (0 < disturbWeight (frames fs s)
         \<longrightarrow> disturbWeight (animate f (frames fs s)) < disturbWeight (frames fs s))
    \<and> (\<forall>d. 0 < d \<and> (\<forall>g\<in>set fs. d \<le> frame_delta g)
           \<longrightarrow> disturbWeight (frames fs s) \<le> disturbWeight s * (1 - min 1 (d * 6)) ^ length fs)
    \<and> (\<forall>d e. 0 < d \<and> 0 < e
           \<longrightarrow> (\<exists>N. \<forall>gs. N \<le> length gs \<and> (\<forall>g\<in>set gs. d \<le> frame_delta g)
                        \<longrightarrow> disturbWeight (frames gs s) < e))"
proof -
  let ?w = "disturbWeight (frames fs s)"
  let ?k = "1 - min 1 (frame_delta f * 6)"
  have k: "0 \<le> ?k" "?k < 1" using assms(5) by (simp_all add: min_def)
  have eq: "disturbWeight (animate f (frames fs s)) = ?w * ?k"
    by (rule settling_step [OF settling_frames [OF assms(1)]])
  have range: "0 \<le> ?w" "?w \<le> disturbWeight s"
    using frames_weight_range [OF assms(1,2,4)] by simp_all
  have le1: "?w \<le> 1" using range(2) assms(3) by linarith
  have le: "disturbWeight (animate f (frames fs s)) \<le> ?w"
    using mult_left_mono [of ?k 1 ?w] range(1) k(2) eq by simp
  have less: "0 < ?w \<longrightarrow> disturbWeight (animate f (frames fs s)) < ?w"
    using mult_strict_left_mono [of ?k 1 ?w] k(2) eq by simp
  have geo: "\<forall>d. 0 < d \<and> (\<forall>g\<in>set fs. d \<le> frame_delta g)
           \<longrightarrow> ?w \<le> disturbWeight s * (1 - min 1 (d * 6)) ^ length fs"
    using frames_weight_geometric [OF assms(1,2)] by blast
  have lim: "\<forall>d e. 0 < d \<and> 0 < e
           \<longrightarrow> (\<exists>N. \<forall>gs. N \<le> length gs \<and> (\<forall>g\<in>set gs. d \<le> frame_delta g)
                        \<longrightarrow> disturbWeight (frames gs s) < e)"
    using frames_weight_small [OF assms(1,2,3)] by blast
  show ?thesis
    using k eq range(1) le1 le less geo lim by blast
qed

theorem disturb_weight_decays_witness:
  "disturbWeightTarget ((mount [] [])\<lparr>disturbWeight := 1\<rparr>) = 0
   \<and> disturbWeight ((mount [] [])\<lparr>disturbWeight := 1\<rparr>) = 1
   \<and> disturbWeight
        (frames [\<lparr>frame_delta = 0.1, frame_elapsed = 0.1, intersect0 = None,
                   labelWorld = (\<lambda>_. Vector3 0 0 0)\<rparr>]
           ((mount [] [])\<lparr>disturbWeight := 1\<rparr>)) = 0.4
   \<and> disturbWeight
        (animate \<lparr>frame_delta = 0.05, frame_elapsed = 0.15, intersect0 = None,
                   labelWorld = (\<lambda>_. Vector3 0 0 0)\<rparr>
          (frames [\<lparr>frame_delta = 0.1, frame_elapsed = 0.1, intersect0 = None,
                     labelWorld = (\<lambda>_. Vector3 0 0 0)\<rparr>]
             ((mount [] [])\<lparr>disturbWeight := 1\<rparr>))) = 0.28"
proof -
  let ?s = "(mount [] [])\<lparr>disturbWeight := 1\<rparr>"
  let ?g = "\<lparr>frame_delta = 0.1, frame_elapsed = 0.1, intersect0 = None,
             labelWorld = (\<lambda>_. Vector3 0 0 0)\<rparr>"
  let ?f = "\<lparr>frame_delta = 0.05, frame_elapsed = 0.15, intersect0 = None,
             labelWorld = (\<lambda>_. Vector3 0 0 0)\<rparr>"
  have h1: "disturbWeightTarget ?s = 0 \<or> isFocused ?s" by (simp add: mount_def)
  have h2: "0 \<le> disturbWeight ?s" "disturbWeight ?s \<le> 1" by simp_all
  have h3: "\<forall>g\<in>set [?g]. 0 < frame_delta g" by simp
  have h4: "0 < frame_delta ?f" by simp
  have w1: "disturbWeight (frames [?g] ?s) = 0.4"
    by (simp add: frames_def animate_disturbWeight isFocused_def mount_def)
  from disturb_weight_decays [OF h1 h2 h3 h4]
  have "disturbWeight (animate ?f (frames [?g] ?s))
          = disturbWeight (frames [?g] ?s) * (1 - min 1 (frame_delta ?f * 6))"
    by blast
  then have "disturbWeight (animate ?f (frames [?g] ?s)) = 0.28"
    by (simp add: w1)
  with w1 show ?thesis by (simp add: mount_def)
qed

subsection \<open>Clicks\<close>

lemma onPointerMove_dragDistance:
  "onPointerMove clientX clientY disturbProject s = Some s' \<Longrightarrow>
   dragDistance s' =
     (if pointerDown s
      then max (dragDistance s)
             (hypot (clientX - fst (pointerDownAt s)) (clientY - snd (pointerDownAt s)))
      else dragDistance s)"
  by (auto simp: onPointerMove_def Let_def emit_def split: option.splits if_splits)

lemma onPointerMove_pointerClient:
  "onPointerMove clientX clientY disturbProject s = Some s' \<Longrightarrow>
   pointerClient s' = (clientX, clientY)"
  by (auto simp: onPointerMove_def Let_def emit_def split: option.splits if_splits)

lemma onClick_emitted:
  "runtimeRef s = Some runtime \<Longrightarrow>
   emitted (onClick s) =
     emitted s @
       (case currentHovered s of
          Some m \<Rightarrow> if dragDistance s \<le> dragThreshold \<and> \<not> focusLocked runtime
                    then [OnNodeSelect (userData_site m)] else []
        | None \<Rightarrow> [])"
  by (auto simp: onClick_def emit_def split: option.splits)

text \<open>
  C4. On a mounted scene, \<open>onClick\<close> calls \<open>onNodeSelect\<close> with the hovered node's site if
  and only if the accumulated drag distance is at most the threshold of 8 pixels, the camera
  is not focus-locked and a node is hovered; otherwise it calls nothing. So a click with a
  drag distance above the threshold never selects, whatever is hovered. A qualifying click
  resets the drag distance to 0. The drag distance is what \<open>onPointerMove\<close> accumulates while the pointer is
  down (the largest distance from the pointer-down point), from 0 at \<open>onPointerDown\<close>.
\<close>

theorem onClick_selects_iff:
  assumes "runtimeRef s = Some runtime"
  shows "dragThreshold = 8
    \<and> emitted (onClick s) =
        emitted s @
          (case currentHovered s of
             Some m \<Rightarrow> if dragDistance s \<le> dragThreshold \<and> \<not> focusLocked runtime
                       then [OnNodeSelect (userData_site m)] else []
           | None \<Rightarrow> [])
    \<and> ((\<exists>st. emitted (onClick s) = emitted s @ [OnNodeSelect st])
         \<longleftrightarrow> dragDistance s \<le> dragThreshold \<and> \<not> focusLocked runtime \<and> currentHovered s \<noteq> None)
    \<and> (dragDistance s > dragThreshold \<longrightarrow> emitted (onClick s) = emitted s)
    \<and> (dragDistance s \<le> dragThreshold \<and> \<not> focusLocked runtime \<and> currentHovered s \<noteq> None
         \<longrightarrow> dragDistance (onClick s) = 0)
    \<and> dragDistance (onPointerDown clientX clientY s) = 0
    \<and> (\<forall>s'. onPointerMove clientX clientY disturbProject s = Some s' \<longrightarrow>
           dragDistance s' =
             (if pointerDown s
              then max (dragDistance s)
                     (hypot (clientX - fst (pointerDownAt s)) (clientY - snd (pointerDownAt s)))
              else dragDistance s))"
proof (intro conjI)
  show "dragThreshold = 8" by (simp add: dragThreshold_def)
  show e: "emitted (onClick s) =
        emitted s @
          (case currentHovered s of
             Some m \<Rightarrow> if dragDistance s \<le> dragThreshold \<and> \<not> focusLocked runtime
                       then [OnNodeSelect (userData_site m)] else []
           | None \<Rightarrow> [])"
    by (rule onClick_emitted [OF assms])
  show "(\<exists>st. emitted (onClick s) = emitted s @ [OnNodeSelect st])
         \<longleftrightarrow> dragDistance s \<le> dragThreshold \<and> \<not> focusLocked runtime \<and> currentHovered s \<noteq> None"
    unfolding e by (auto split: option.splits)
  show "dragDistance s > dragThreshold \<longrightarrow> emitted (onClick s) = emitted s"
    unfolding e by (auto split: option.splits)
  show "dragDistance s \<le> dragThreshold \<and> \<not> focusLocked runtime \<and> currentHovered s \<noteq> None
         \<longrightarrow> dragDistance (onClick s) = 0"
    using assms by (auto simp: onClick_def emit_def split: option.splits)
  show "dragDistance (onPointerDown clientX clientY s) = 0"
    by (simp add: onPointerDown_def)
  show "\<forall>s'. onPointerMove clientX clientY disturbProject s = Some s' \<longrightarrow>
           dragDistance s' =
             (if pointerDown s
              then max (dragDistance s)
                     (hypot (clientX - fst (pointerDownAt s)) (clientY - snd (pointerDownAt s)))
              else dragDistance s)"
    using onPointerMove_dragDistance by blast
qed

theorem onClick_selects_iff_witness:
  "runtimeRef scene_ab \<noteq> None
   \<and> emitted (onClick (scene_ab\<lparr>currentHovered := Some mesh_a, dragDistance := 3\<rparr>))
       = [OnNodeSelect site_a]
   \<and> dragDistance (onClick (scene_ab\<lparr>currentHovered := Some mesh_a, dragDistance := 3\<rparr>)) = 0
   \<and> emitted (onClick (scene_ab\<lparr>currentHovered := Some mesh_a, dragDistance := 9\<rparr>)) = []"
proof -
  let ?s = "scene_ab\<lparr>currentHovered := Some mesh_a, dragDistance := 3\<rparr>"
  let ?t = "scene_ab\<lparr>currentHovered := Some mesh_a, dragDistance := 9\<rparr>"
  let ?r = "\<lparr>nodeMeshById = map_of [(''b'', mesh_b), (''a'', mesh_a)], focusLocked = False,
             pendingFocusId = None, cameraTween = None, targetTween = None\<rparr>"
  have rs: "runtimeRef ?s = Some ?r" and rt: "runtimeRef ?t = Some ?r"
    by (simp_all add: scene_ab_def mount_def site_a_def site_b_def mesh_a_def mesh_b_def)
  have r0: "runtimeRef scene_ab \<noteq> None" by (simp add: scene_ab_def mount_def)
  from onClick_selects_iff [OF rs, of 0 0 "Vector3 0 0 0"]
  have a: "emitted (onClick ?s) = [OnNodeSelect site_a]" "dragDistance (onClick ?s) = 0"
    by (simp_all add: dragThreshold_def scene_ab_def mount_def mesh_a_def)
  from onClick_selects_iff [OF rt, of 0 0 "Vector3 0 0 0"]
  have b: "emitted (onClick ?t) = []"
    by (simp add: dragThreshold_def scene_ab_def mount_def)
  from r0 a b show ?thesis by blast
qed

subsection \<open>Hover\<close>

lemma setHovered_same: "currentHovered s = h \<Longrightarrow> setHovered h s = s"
  by (simp add: setHovered_def)

lemma setHovered_currentHovered: "currentHovered (setHovered h s) = h"
  by (simp add: setHovered_def gsap_to_def emit_def Let_def split: option.splits)

lemma setHovered_pointerClient: "pointerClient (setHovered h s) = pointerClient s"
  by (simp add: setHovered_def gsap_to_def emit_def Let_def split: option.splits)

lemma setHovered_emitted:
  "currentHovered s \<noteq> h \<Longrightarrow>
   emitted (setHovered h s) =
     emitted s @
       [OnHoverChange
          (case h of
             Some m \<Rightarrow> \<lparr>hover_site = Some (userData_site m),
                         hover_x = fst (pointerClient s), hover_y = snd (pointerClient s)\<rparr>
           | None \<Rightarrow> \<lparr>hover_site = None, hover_x = 0, hover_y = 0\<rparr>)]"
  by (simp add: setHovered_def gsap_to_def emit_def Let_def split: option.splits)

lemma animate_currentHovered:
  "currentHovered (animate f s) = (if isFocused s then None else intersect0 f)"
  by (auto simp: animate_def Let_def controls_update_frame setHovered_currentHovered)

lemma animate_emitted:
  "emitted (animate f s) =
     emitted s @
       (if (if isFocused s then None else intersect0 f) = currentHovered s then []
        else [OnHoverChange
                (case (if isFocused s then None else intersect0 f) of
                   Some m \<Rightarrow> \<lparr>hover_site = Some (userData_site m),
                               hover_x = fst (pointerClient s), hover_y = snd (pointerClient s)\<rparr>
                 | None \<Rightarrow> \<lparr>hover_site = None, hover_x = 0, hover_y = 0\<rparr>)])"
proof -
  show ?thesis
  proof (cases "(if isFocused s then None else intersect0 f) = currentHovered s")
    case True
    then show ?thesis
      by (auto simp: animate_def Let_def controls_update_frame setHovered_same split: if_splits)
  next
    case False
    then show ?thesis
      by (auto simp: animate_def Let_def controls_update_frame setHovered_emitted split: if_splits option.splits)
  qed
qed

lemma animate_same_hover:
  "(if isFocused s then None else intersect0 f) = currentHovered s \<Longrightarrow>
   tweens (animate f s) = tweens s \<and> cursor (animate f s) = cursor s
   \<and> meshScale (animate f s) = meshScale s"
  by (auto simp: animate_def Let_def controls_update_frame setHovered_same split: if_splits)

lemma animate_pointerClient: "pointerClient (animate f s) = pointerClient s"
  by (simp add: animate_def Let_def controls_update_frame setHovered_pointerClient)

lemma frames_isFocused: "isFocused (frames fs s) = isFocused s"
  by (induction fs arbitrary: s) (simp_all add: frames_def animate_isFocused)

lemma frames_hover_events:
  "length (emitted (frames fs s)) =
     length (emitted s)
       + transitions (currentHovered s) (map (\<lambda>f. if isFocused s then None else intersect0 f) fs)"
proof (induction fs arbitrary: s)
  case Nil
  then show ?case by (simp add: frames_def)
next
  case (Cons f fs)
  have "frames (f # fs) s = frames fs (animate f s)" by (simp add: frames_def)
  then show ?case
    using Cons.IH [of "animate f s"]
    by (simp add: animate_isFocused animate_currentHovered animate_emitted)
qed

text \<open>
  C5 (amended). A hover transition to a node calls \<open>onHoverChange\<close> once, with that node's
  site and the last pointer client coordinates (those of the latest \<open>onPointerMove\<close>); a
  transition to no node calls it once with \<open>site = null\<close> and the coordinates \<open>(0, 0)\<close>.
\<close>

theorem hover_transition_event:
  assumes "currentHovered s \<noteq> nextHovered"
  shows "emitted (setHovered nextHovered s) =
           emitted s @
             [OnHoverChange
                (case nextHovered of
                   Some m \<Rightarrow> \<lparr>hover_site = Some (userData_site m),
                               hover_x = fst (pointerClient s), hover_y = snd (pointerClient s)\<rparr>
                 | None \<Rightarrow> \<lparr>hover_site = None, hover_x = 0, hover_y = 0\<rparr>)]
    \<and> currentHovered (setHovered nextHovered s) = nextHovered
    \<and> (\<forall>s'. onPointerMove clientX clientY disturbProject s = Some s'
           \<longrightarrow> pointerClient s' = (clientX, clientY))"
  using setHovered_emitted [OF assms] setHovered_currentHovered onPointerMove_pointerClient
  by blast

theorem hover_transition_event_witness:
  "currentHovered (scene_ab\<lparr>pointerClient := (100, 200)\<rparr>) \<noteq> Some mesh_a
   \<and> emitted (setHovered (Some mesh_a) (scene_ab\<lparr>pointerClient := (100, 200)\<rparr>))
       = [OnHoverChange \<lparr>hover_site = Some site_a, hover_x = 100, hover_y = 200\<rparr>]
   \<and> currentHovered (scene_ab\<lparr>pointerClient := (100, 200), currentHovered := Some mesh_a\<rparr>) \<noteq> None
   \<and> emitted (setHovered None (scene_ab\<lparr>pointerClient := (100, 200), currentHovered := Some mesh_a\<rparr>))
       = [OnHoverChange \<lparr>hover_site = None, hover_x = 0, hover_y = 0\<rparr>]"
proof -
  let ?s = "scene_ab\<lparr>pointerClient := (100, 200)\<rparr>"
  let ?t = "scene_ab\<lparr>pointerClient := (100, 200), currentHovered := Some mesh_a\<rparr>"
  have h1: "currentHovered ?s \<noteq> Some mesh_a" by (simp add: scene_ab_def mount_def)
  have h2: "currentHovered ?t \<noteq> None" by simp
  from hover_transition_event [OF h1]
  have e1: "emitted (setHovered (Some mesh_a) ?s)
              = [OnHoverChange \<lparr>hover_site = Some site_a, hover_x = 100, hover_y = 200\<rparr>]"
    by (simp add: scene_ab_def mount_def mesh_a_def)
  from hover_transition_event [OF h2]
  have e2: "emitted (setHovered None ?t)
              = [OnHoverChange \<lparr>hover_site = None, hover_x = 0, hover_y = 0\<rparr>]"
    by (simp add: scene_ab_def mount_def)
  from h1 h2 e1 e2 show ?thesis by blast
qed

lemma frame_at_sel:
  "frame_delta (frame_at dt t h) = dt" "frame_elapsed (frame_at dt t h) = t"
  "intersect0 (frame_at dt t h) = h"
  by (simp_all add: frame_at_def)

lemma pointer_move_scene_ab:
  "onPointerMove 100 200 (Vector3 0 0 39) scene_ab =
     Some (scene_ab\<lparr>pointerClient := (100, 200),
                     disturbTarget := addScaledVector (Vector3 0 0 40) (Vector3 0 0 (- 1))
                                        (distanceTo (Vector3 0 0 40) (Vector3 0 0 0)),
                     disturbWeightTarget := 1\<rparr>)"
  by (simp add: onPointerMove_def scene_ab_def mount_def Let_def normalize_v_def divideScalar_def
      length_v_def lengthSq_def sub_v_def multiplyScalar_def BASE_CAMERA_POSITION_def)

theorem hover_clear_event_counterexample:
  "map_option emitted
     (run linear [PointerMove 100 200 (Vector3 0 0 39),
                  Frame (frame_at 0.016 0.016 (Some mesh_a)),
                  Frame (frame_at 0.016 0.032 None)] scene_ab)
   = Some [OnHoverChange \<lparr>hover_site = Some site_a, hover_x = 100, hover_y = 200\<rparr>,
           OnHoverChange \<lparr>hover_site = None, hover_x = 0, hover_y = 0\<rparr>]
   \<and> map_option pointerClient
     (run linear [PointerMove 100 200 (Vector3 0 0 39),
                  Frame (frame_at 0.016 0.016 (Some mesh_a)),
                  Frame (frame_at 0.016 0.032 None)] scene_ab)
   = Some (100, 200)"
proof -
  let ?s1 = "scene_ab\<lparr>pointerClient := (100, 200),
                     disturbTarget := addScaledVector (Vector3 0 0 40) (Vector3 0 0 (- 1))
                                        (distanceTo (Vector3 0 0 40) (Vector3 0 0 0)),
                     disturbWeightTarget := 1\<rparr>"
  let ?f1 = "frame_at 0.016 0.016 (Some mesh_a)"
  let ?f2 = "frame_at 0.016 0.032 None"
  have r: "run linear [PointerMove 100 200 (Vector3 0 0 39), Frame ?f1, Frame ?f2] scene_ab
             = Some (animate ?f2 (animate ?f1 ?s1))"
    by (simp add: pointer_move_scene_ab)
  have foc: "\<not> isFocused ?s1" by (simp add: isFocused_def scene_ab_def mount_def)
  have e1: "emitted (animate ?f1 ?s1)
              = [OnHoverChange \<lparr>hover_site = Some site_a, hover_x = 100, hover_y = 200\<rparr>]"
    using foc by (simp add: animate_emitted frame_at_sel scene_ab_def mount_def mesh_a_def)
  have c1: "currentHovered (animate ?f1 ?s1) = Some mesh_a"
    using foc by (simp add: animate_currentHovered frame_at_sel)
  have e2: "emitted (animate ?f2 (animate ?f1 ?s1))
              = [OnHoverChange \<lparr>hover_site = Some site_a, hover_x = 100, hover_y = 200\<rparr>,
                 OnHoverChange \<lparr>hover_site = None, hover_x = 0, hover_y = 0\<rparr>]"
  proof -
    have "emitted (animate ?f2 (animate ?f1 ?s1))
            = emitted (animate ?f1 ?s1) @
                [OnHoverChange \<lparr>hover_site = None, hover_x = 0, hover_y = 0\<rparr>]"
      unfolding animate_emitted [of ?f2] using foc c1
      by (simp only: animate_isFocused frame_at_sel if_False option.simps)
    then show ?thesis by (simp only: e1 append.simps)
  qed
  have p2: "pointerClient (animate ?f2 (animate ?f1 ?s1)) = (100, 200)"
    by (simp add: animate_pointerClient)
  show ?thesis unfolding r using e2 p2 by simp
qed

text \<open>
  C10. Calling the hover setter with the node that is already hovered (or with null when
  nothing is hovered) changes nothing at all: no \<open>onHoverChange\<close>, no tween, the same
  cursor. A frame calls \<open>onHoverChange\<close> once if the hovered node changes in it and not at
  all otherwise, so over consecutive frames the number of calls is the number of hover
  transitions, not the number of frames.
\<close>

theorem setHovered_same_is_noop:
  "setHovered (currentHovered s) s = s
   \<and> currentHovered (animate f s) = (if isFocused s then None else intersect0 f)
   \<and> emitted (animate f s) =
       emitted s @
         (if currentHovered (animate f s) = currentHovered s then []
          else [OnHoverChange
                  (case currentHovered (animate f s) of
                     Some m \<Rightarrow> \<lparr>hover_site = Some (userData_site m),
                                 hover_x = fst (pointerClient s), hover_y = snd (pointerClient s)\<rparr>
                   | None \<Rightarrow> \<lparr>hover_site = None, hover_x = 0, hover_y = 0\<rparr>)])
   \<and> (currentHovered (animate f s) = currentHovered s
        \<longrightarrow> tweens (animate f s) = tweens s \<and> cursor (animate f s) = cursor s
            \<and> meshScale (animate f s) = meshScale s)
   \<and> length (emitted (frames fs s)) =
       length (emitted s)
         + transitions (currentHovered s)
             (map (\<lambda>f. if isFocused s then None else intersect0 f) fs)"
proof (intro conjI)
  show "setHovered (currentHovered s) s = s" by (simp add: setHovered_same)
  show c: "currentHovered (animate f s) = (if isFocused s then None else intersect0 f)"
    by (rule animate_currentHovered)
  show "emitted (animate f s) =
       emitted s @
         (if currentHovered (animate f s) = currentHovered s then []
          else [OnHoverChange
                  (case currentHovered (animate f s) of
                     Some m \<Rightarrow> \<lparr>hover_site = Some (userData_site m),
                                 hover_x = fst (pointerClient s), hover_y = snd (pointerClient s)\<rparr>
                   | None \<Rightarrow> \<lparr>hover_site = None, hover_x = 0, hover_y = 0\<rparr>)])"
    unfolding c by (rule animate_emitted)
  show "currentHovered (animate f s) = currentHovered s
        \<longrightarrow> tweens (animate f s) = tweens s \<and> cursor (animate f s) = cursor s
            \<and> meshScale (animate f s) = meshScale s"
    unfolding c using animate_same_hover by blast
  show "length (emitted (frames fs s)) =
       length (emitted s)
         + transitions (currentHovered s)
             (map (\<lambda>f. if isFocused s then None else intersect0 f) fs)"
    by (rule frames_hover_events)
qed

theorem setHovered_same_is_noop_witness:
  "setHovered (Some mesh_a) (scene_ab\<lparr>currentHovered := Some mesh_a\<rparr>)
     = scene_ab\<lparr>currentHovered := Some mesh_a\<rparr>
   \<and> emitted (frames [frame_at 0.016 0.016 (Some mesh_a), frame_at 0.016 0.032 (Some mesh_a),
                       frame_at 0.016 0.048 (Some mesh_a), frame_at 0.016 0.064 None]
                 scene_ab)
     = [OnHoverChange \<lparr>hover_site = Some site_a, hover_x = 0, hover_y = 0\<rparr>,
        OnHoverChange \<lparr>hover_site = None, hover_x = 0, hover_y = 0\<rparr>]
   \<and> tweens (animate (frame_at 0.016 0.016 (Some mesh_a)) (scene_ab\<lparr>currentHovered := Some mesh_a\<rparr>))
     = tweens (scene_ab\<lparr>currentHovered := Some mesh_a\<rparr>)"
proof -
  let ?t = "scene_ab\<lparr>currentHovered := Some mesh_a\<rparr>"
  let ?f = "frame_at 0.016 0.016 (Some mesh_a)"
  have foc: "\<not> isFocused scene_ab" "\<not> isFocused ?t"
    by (simp_all add: isFocused_def scene_ab_def mount_def)
  from setHovered_same_is_noop [of ?t ?f "[]"]
  have a: "setHovered (Some mesh_a) ?t = ?t" by simp
  from setHovered_same_is_noop [of ?t ?f "[]"] foc
  have b: "tweens (animate ?f ?t) = tweens ?t" by (simp add: frame_at_sel)
  have c: "emitted (frames [frame_at 0.016 0.016 (Some mesh_a), frame_at 0.016 0.032 (Some mesh_a),
                       frame_at 0.016 0.048 (Some mesh_a), frame_at 0.016 0.064 None]
                 scene_ab)
     = [OnHoverChange \<lparr>hover_site = Some site_a, hover_x = 0, hover_y = 0\<rparr>,
        OnHoverChange \<lparr>hover_site = None, hover_x = 0, hover_y = 0\<rparr>]"
    using foc(1)
    by (simp add: frames_def animate_emitted animate_isFocused animate_currentHovered
        animate_pointerClient frame_at_sel)
      (simp add: scene_ab_def mount_def mesh_a_def)
  from a b c show ?thesis by blast
qed

subsection \<open>Particles at elapsed time 0\<close>

lemma hypot_nonneg: "0 \<le> hypot a b"
  by (simp add: hypot_def)

lemma rotate_scale_sq:
  fixes a b c s k :: real
  assumes "s * s + c * c = 1"
  shows "((a * c - b * s) * k) * ((a * c - b * s) * k) + ((a * s + b * c) * k) * ((a * s + b * c) * k)
         = (k * k) * (a * a + b * b)"
proof -
  have "((a * c - b * s) * k) * ((a * c - b * s) * k) + ((a * s + b * c) * k) * ((a * s + b * c) * k)
        = (k * k) * ((a * a + b * b) * (s * s + c * c))"
    by (simp add: algebra_simps)
  then show ?thesis by (simp add: assms)
qed

lemma swirl_xyz_radius:
  "hypot (vx (swirl_xyz t p)) (vz (swirl_xyz t p)) =
     \<bar>1 + sin (t * (galaxySpeed p * 0.72) + galaxyPhase p * 1.7
                + hypot (vx (galaxyBase p)) (vz (galaxyBase p)) * 0.08) * galaxyPulse p\<bar>
     * hypot (vx (galaxyBase p)) (vz (galaxyBase p))"
proof -
  define r where "r = hypot (vx (galaxyBase p)) (vz (galaxyBase p))"
  define sw where "sw = sin (t * galaxySpeed p + galaxyPhase p + r * 0.22) * galaxyTwist p"
  define pu where
    "pu = 1 + sin (t * (galaxySpeed p * 0.72) + galaxyPhase p * 1.7 + r * 0.08) * galaxyPulse p"
  have xz: "vx (swirl_xyz t p) = (vx (galaxyBase p) * cos sw - vz (galaxyBase p) * sin sw) * pu"
    "vz (swirl_xyz t p) = (vx (galaxyBase p) * sin sw + vz (galaxyBase p) * cos sw) * pu"
    by (simp_all add: swirl_xyz_def Let_def r_def sw_def pu_def)
  have sc: "sin sw * sin sw + cos sw * cos sw = 1"
    using sin_cos_squared_add [of sw] by (simp add: power2_eq_square)
  have "hypot (vx (swirl_xyz t p)) (vz (swirl_xyz t p))
          = sqrt ((pu * pu) * (vx (galaxyBase p) * vx (galaxyBase p)
                                + vz (galaxyBase p) * vz (galaxyBase p)))"
    unfolding hypot_def xz by (subst rotate_scale_sq [OF sc]) (rule refl)
  also have "\<dots> = \<bar>pu\<bar> * r"
    by (simp add: real_sqrt_mult r_def hypot_def)
  finally show ?thesis by (simp add: pu_def r_def)
qed

lemma abs_sin_mult_le:
  fixes a :: real
  assumes "0 \<le> a"
  shows "\<bar>sin u * a\<bar> \<le> a"
proof -
  have "\<bar>sin u * a\<bar> = \<bar>sin u\<bar> * a" using assms by (simp add: abs_mult)
  also have "\<dots> \<le> 1 * a" using assms by (intro mult_right_mono) auto
  finally show ?thesis by simp
qed

lemma disturb_off: "w \<le> 0.001 \<Longrightarrow> disturb t w c p v = v"
  by (simp add: disturb_def)

lemma hypot_axis: "0 \<le> a \<Longrightarrow> hypot a 0 = a"
  by (simp add: hypot_def)

lemma ranges_pulse: "galaxy_ranges particle_pulse"
  using pi_gt_zero pi_less_4
  by (simp add: galaxy_ranges_def particle_pulse_def hypot_axis)

lemma ranges_swirl: "galaxy_ranges particle_swirl"
  using pi_gt_zero pi_less_4
  by (simp add: galaxy_ranges_def particle_swirl_def hypot_axis)

lemma sin_five_half_pi: "sin (5 / 2 * pi) = 1"
proof -
  have "sin (5 / 2 * pi) = sin (pi / 2 + 2 * pi)" by (simp add: field_simps)
  then show ?thesis by (simp only: sin_periodic sin_pi_half)
qed

lemma sin_three_pi: "sin (3 * pi) = 0"
  using sin_npi [of 3] by simp

lemma args_pulse:
  "galaxyPhase particle_pulse + hypot (vx (galaxyBase particle_pulse)) (vz (galaxyBase particle_pulse)) * 0.22 = pi"
  "galaxyPhase particle_pulse * 1.7 + hypot (vx (galaxyBase particle_pulse)) (vz (galaxyBase particle_pulse)) * 0.08 = pi / 2"
  by (simp_all add: particle_pulse_def hypot_axis)

lemma args_swirl:
  "galaxyPhase particle_swirl + hypot (vx (galaxyBase particle_swirl)) (vz (galaxyBase particle_swirl)) * 0.22 = 5 / 2 * pi"
  "galaxyPhase particle_swirl * 1.7 + hypot (vx (galaxyBase particle_swirl)) (vz (galaxyBase particle_swirl)) * 0.08 = 3 * pi"
  by (simp_all add: particle_swirl_def hypot_axis)

lemma sin_mult_zero_iff:
  fixes c :: real
  shows "c \<noteq> 0 \<Longrightarrow> sin u * c = 0 \<longleftrightarrow> sin u = 0"
  by simp

lemma swirl_xyz_zero:
  "swirl_xyz 0 p =
     Vector3
       ((vx (galaxyBase p)
           * cos (sin (galaxyPhase p + hypot (vx (galaxyBase p)) (vz (galaxyBase p)) * 0.22)
                  * galaxyTwist p)
         - vz (galaxyBase p)
           * sin (sin (galaxyPhase p + hypot (vx (galaxyBase p)) (vz (galaxyBase p)) * 0.22)
                  * galaxyTwist p))
        * (1 + sin (galaxyPhase p * 1.7 + hypot (vx (galaxyBase p)) (vz (galaxyBase p)) * 0.08)
               * galaxyPulse p))
       (vy (galaxyBase p)
         + sin (galaxyPhase p + hypot (vx (galaxyBase p)) (vz (galaxyBase p)) * 0.19)
           * galaxyAmplitude p)
       ((vx (galaxyBase p)
           * sin (sin (galaxyPhase p + hypot (vx (galaxyBase p)) (vz (galaxyBase p)) * 0.22)
                  * galaxyTwist p)
         + vz (galaxyBase p)
           * cos (sin (galaxyPhase p + hypot (vx (galaxyBase p)) (vz (galaxyBase p)) * 0.22)
                  * galaxyTwist p))
        * (1 + sin (galaxyPhase p * 1.7 + hypot (vx (galaxyBase p)) (vz (galaxyBase p)) * 0.08)
               * galaxyPulse p))"
  by (simp add: swirl_xyz_def Let_def)

lemma swirl_xyz_speed: "swirl_xyz 0 (p\<lparr>galaxySpeed := v\<rparr>) = swirl_xyz 0 p"
  by (simp add: swirl_xyz_def Let_def)

lemma int_mult_pi_small:
  fixes k :: int
  assumes "0 \<le> of_int k * pi" and "of_int k * pi < pi"
  shows "k = 0"
proof -
  have "0 \<le> (of_int k :: real)" using assms(1) pi_gt_zero by (simp add: zero_le_mult_iff)
  moreover have "(of_int k :: real) < 1" using assms(2) pi_gt_zero by simp
  ultimately show ?thesis by linarith
qed

lemma sines_force_axis:
  fixes ph r :: real
  assumes "sin (ph + r * 0.22) = 0" and "sin (ph + r * 0.19) = 0" and "0 \<le> r" and "r < 46"
  shows "r = 0"
proof -
  from assms(1,2) obtain i j :: int where
    i: "ph + r * 0.22 = of_int i * pi" and j: "ph + r * 0.19 = of_int j * pi"
    unfolding sin_zero_iff_int2 by blast
  have d: "r * 0.03 = of_int (i - j) * pi"
    using i j by (simp add: algebra_simps)
  have small: "r * 0.03 < 2" using assms(4) by simp
  have "of_int (i - j) * pi < 2" unfolding d [symmetric] by (rule small)
  then have lt: "of_int (i - j) * pi < pi" using pi_ge_two by (rule less_le_trans)
  have "0 \<le> r * 0.03" using assms(3) by simp
  then have ge: "0 \<le> of_int (i - j) * pi" unfolding d .
  have "i - j = 0" using ge lt by (rule int_mult_pi_small)
  then show ?thesis using d by simp
qed

lemma sin_zero_phase:
  fixes ph :: real
  assumes "0 \<le> ph" and "ph < 2 * pi"
  shows "sin ph = 0 \<longleftrightarrow> ph = 0 \<or> ph = pi"
proof
  assume "sin ph = 0"
  then obtain i :: int where i: "ph = of_int i * pi" unfolding sin_zero_iff_int2 by blast
  have "0 \<le> (of_int i :: real)" using assms(1) i pi_gt_zero by (simp add: zero_le_mult_iff)
  moreover have "(of_int i :: real) < 2" using assms(2) i pi_gt_zero by simp
  ultimately have "i = 0 \<or> i = 1" by linarith
  then show "ph = 0 \<or> ph = pi" using i by auto
next
  assume "ph = 0 \<or> ph = pi"
  then show "sin ph = 0" by auto
qed

lemma rotation_fixes:
  fixes x z c s :: real
  assumes "x * c - z * s = x" and "x * s + z * c = z" and "x * x + z * z \<noteq> 0"
  shows "c = 1"
proof -
  have "(x * c - z * s) * x + (x * s + z * c) * z = x * x + z * z"
    unfolding assms(1,2) by (rule refl)
  then have "c * (x * x + z * z) = 1 * (x * x + z * z)" by (simp add: algebra_simps)
  then show ?thesis using assms(3) mult_right_cancel by blast
qed

lemma cos_one_small:
  fixes a :: real
  assumes "cos a = 1" and "\<bar>a\<bar> < 2 * pi"
  shows "a = 0"
proof -
  from assms(1) obtain k :: int where k: "a = of_int k * 2 * pi"
    unfolding cos_one_2pi_int by blast
  have "\<bar>of_int k :: real\<bar> * (2 * pi) < 1 * (2 * pi)"
    using assms(2) k pi_gt_zero by (simp add: abs_mult)
  then have "\<bar>of_int k :: real\<bar> < 1" using pi_gt_zero by simp
  then have "k = 0" by linarith
  then show ?thesis using k by simp
qed

lemma hypot_zero_iff: "hypot a b = 0 \<longleftrightarrow> a = 0 \<and> b = 0"
proof -
  have "a * a + b * b = 0 \<longleftrightarrow> a = 0 \<and> b = 0"
    using sum_power2_eq_zero_iff [of a b] by (simp add: power2_eq_square)
  then show ?thesis by (simp add: hypot_def)
qed

text \<open>Under the documented ranges the position at elapsed time 0 is the base position only on
  the axis of the disk, and there only for the phases 0 and \<open>\<pi>\<close>.\<close>

lemma base_only_on_axis:
  assumes "galaxy_ranges p"
  shows "swirl_xyz 0 p = galaxyBase p
           \<longleftrightarrow> hypot (vx (galaxyBase p)) (vz (galaxyBase p)) = 0
                \<and> (galaxyPhase p = 0 \<or> galaxyPhase p = pi)"
proof -
  define x z r where "x = vx (galaxyBase p)" and "z = vz (galaxyBase p)" and "r = hypot x z"
  define swirl where "swirl = sin (galaxyPhase p + r * 0.22) * galaxyTwist p"
  define pulse where "pulse = 1 + sin (galaxyPhase p * 1.7 + r * 0.08) * galaxyPulse p"
  define wobble where "wobble = sin (galaxyPhase p + r * 0.19) * galaxyAmplitude p"
  have tw: "0 < galaxyTwist p" "galaxyTwist p < 1" and pu: "0 < galaxyPulse p" "galaxyPulse p < 1"
    and amp: "0 < galaxyAmplitude p" and ph: "0 \<le> galaxyPhase p" "galaxyPhase p < 2 * pi"
    and r46: "r < 46"
    using assms by (simp_all add: galaxy_ranges_def r_def x_def z_def)
  have r0: "0 \<le> r" unfolding r_def by (rule hypot_nonneg)
  have eq: "swirl_xyz 0 p =
           Vector3 ((x * cos swirl - z * sin swirl) * pulse) (vy (galaxyBase p) + wobble)
             ((x * sin swirl + z * cos swirl) * pulse)"
    unfolding swirl_def pulse_def wobble_def r_def x_def z_def by (rule swirl_xyz_zero)
  have base: "galaxyBase p = Vector3 x (vy (galaxyBase p)) z"
    unfolding x_def z_def by (cases "galaxyBase p") simp
  have b1: "\<bar>swirl\<bar> \<le> galaxyTwist p"
    unfolding swirl_def using abs_sin_mult_le [of "galaxyTwist p"] tw by simp
  have b2: "\<bar>pulse - 1\<bar> \<le> galaxyPulse p"
    unfolding pulse_def using abs_sin_mult_le [of "galaxyPulse p"] pu(1) by simp
  have pos: "0 < pulse" using b2 pu(2) by linarith
  show ?thesis
  proof
    assume same: "swirl_xyz 0 p = galaxyBase p"
    then have "vx (swirl_xyz 0 p) = x" "vz (swirl_xyz 0 p) = z"
      "vy (swirl_xyz 0 p) = vy (galaxyBase p)"
      by (simp_all add: x_def z_def)
    then have xs: "(x * cos swirl - z * sin swirl) * pulse = x"
      and zs: "(x * sin swirl + z * cos swirl) * pulse = z"
      and w0: "wobble = 0"
      unfolding eq by simp_all
    have sw: "sin (galaxyPhase p + r * 0.19) = 0"
      using w0 amp unfolding wobble_def by simp
    have "r = 0"
    proof (rule ccontr)
      assume rn: "r \<noteq> 0"
      have "hypot (vx (swirl_xyz 0 p)) (vz (swirl_xyz 0 p)) = \<bar>pulse\<bar> * r"
        using swirl_xyz_radius [of 0 p] unfolding pulse_def r_def x_def z_def by simp
      then have "r = pulse * r" using same pos unfolding r_def x_def z_def by simp
      then have p1: "pulse = 1" using rn by simp
      have nz: "x * x + z * z \<noteq> 0"
        using rn hypot_zero_iff [of x z] sum_power2_eq_zero_iff [of x z] unfolding r_def
        by (simp add: power2_eq_square)
      have "cos swirl = 1"
        using xs zs unfolding p1 by (intro rotation_fixes [OF _ _ nz]) simp_all
      moreover have "\<bar>swirl\<bar> < 2 * pi" using b1 tw(2) pi_ge_two by linarith
      ultimately have "swirl = 0" by (rule cos_one_small)
      then have "sin (galaxyPhase p + r * 0.22) = 0" using tw(1) unfolding swirl_def by simp
      from sines_force_axis [OF this sw r0 r46] rn show False by simp
    qed
    moreover from this sw have "sin (galaxyPhase p) = 0" by simp
    ultimately show "hypot (vx (galaxyBase p)) (vz (galaxyBase p)) = 0
                \<and> (galaxyPhase p = 0 \<or> galaxyPhase p = pi)"
      using sin_zero_phase [OF ph] unfolding r_def x_def z_def by simp
  next
    assume ax: "hypot (vx (galaxyBase p)) (vz (galaxyBase p)) = 0
                \<and> (galaxyPhase p = 0 \<or> galaxyPhase p = pi)"
    then have "r = 0" unfolding r_def x_def z_def by simp
    then have xz: "x = 0" "z = 0" using hypot_zero_iff [of x z] unfolding r_def by simp_all
    have "sin (galaxyPhase p) = 0" using ax by auto
    then have "wobble = 0" unfolding wobble_def using \<open>r = 0\<close> by simp
    then have "swirl_xyz 0 p = Vector3 x (vy (galaxyBase p)) z"
      unfolding eq by (simp add: xz)
    then show "swirl_xyz 0 p = galaxyBase p"
      by (rule trans [OF _ base [symmetric]])
  qed
qed

text \<open>
  C1 (amended). At elapsed time 0 only the \<open>elapsed * speed\<close> contributions vanish (the
  position does not depend on the speed); the phase and radius offsets of the three sines
  remain. Before any disturbance contribution, the position of a particle with parameters
  in the documented ranges is its base position rotated about the vertical axis by the
  swirl angle \<open>sin (phase + 0.22 * radius) * twist\<close>, scaled radially by the pulse
  \<open>1 + sin (1.7 * phase + 0.08 * radius) * pulse\<close> and raised by the wobble
  \<open>sin (phase + 0.19 * radius) * amplitude\<close>. The angle is at most \<open>twist\<close>, the pulse
  differs from 1 by at most \<open>pulse\<close> and the wobble is at most \<open>amplitude\<close> in absolute
  value; each of the three terms vanishes exactly when its sine does. The position is the
  base position only for a particle on the vertical axis with phase 0 or \<open>\<pi>\<close>. With a
  disturbance weight of at most 0.001 there is no disturbance contribution.
\<close>

theorem position_at_elapsed_zero:
  fixes p :: galaxy_particle
  defines "radius \<equiv> hypot (vx (galaxyBase p)) (vz (galaxyBase p))"
  defines "swirl \<equiv> sin (galaxyPhase p + radius * 0.22) * galaxyTwist p"
  defines "pulse \<equiv> 1 + sin (galaxyPhase p * 1.7 + radius * 0.08) * galaxyPulse p"
  defines "wobble \<equiv> sin (galaxyPhase p + radius * 0.19) * galaxyAmplitude p"
  assumes "galaxy_ranges p"
  shows "swirl_xyz 0 p =
           Vector3 ((vx (galaxyBase p) * cos swirl - vz (galaxyBase p) * sin swirl) * pulse)
             (vy (galaxyBase p) + wobble)
             ((vx (galaxyBase p) * sin swirl + vz (galaxyBase p) * cos swirl) * pulse)
    \<and> \<bar>swirl\<bar> \<le> galaxyTwist p \<and> \<bar>pulse - 1\<bar> \<le> galaxyPulse p
    \<and> \<bar>wobble\<bar> \<le> galaxyAmplitude p
    \<and> (swirl = 0 \<longleftrightarrow> sin (galaxyPhase p + radius * 0.22) = 0)
    \<and> (pulse = 1 \<longleftrightarrow> sin (galaxyPhase p * 1.7 + radius * 0.08) = 0)
    \<and> (wobble = 0 \<longleftrightarrow> sin (galaxyPhase p + radius * 0.19) = 0)
    \<and> (swirl_xyz 0 p = galaxyBase p
          \<longleftrightarrow> radius = 0 \<and> (galaxyPhase p = 0 \<or> galaxyPhase p = pi))
    \<and> hypot (vx (swirl_xyz 0 p)) (vz (swirl_xyz 0 p)) = pulse * radius
    \<and> (\<forall>speed. swirl_xyz 0 (p\<lparr>galaxySpeed := speed\<rparr>) = swirl_xyz 0 p)
    \<and> (\<forall>w c. w \<le> 0.001 \<longrightarrow> particle_position 0 w c p = swirl_xyz 0 p)"
proof -
  have tw: "0 < galaxyTwist p" and pu: "0 < galaxyPulse p" "galaxyPulse p < 1"
    and amp: "0 < galaxyAmplitude p"
    using assms(5) by (simp_all add: galaxy_ranges_def)
  have eq: "swirl_xyz 0 p =
           Vector3 ((vx (galaxyBase p) * cos swirl - vz (galaxyBase p) * sin swirl) * pulse)
             (vy (galaxyBase p) + wobble)
             ((vx (galaxyBase p) * sin swirl + vz (galaxyBase p) * cos swirl) * pulse)"
    unfolding swirl_def pulse_def wobble_def radius_def by (rule swirl_xyz_zero)
  have b1: "\<bar>swirl\<bar> \<le> galaxyTwist p"
    unfolding swirl_def using abs_sin_mult_le [of "galaxyTwist p"] tw by simp
  have b2: "\<bar>pulse - 1\<bar> \<le> galaxyPulse p"
    unfolding pulse_def using abs_sin_mult_le [of "galaxyPulse p"] pu(1) by simp
  have b3: "\<bar>wobble\<bar> \<le> galaxyAmplitude p"
    unfolding wobble_def using abs_sin_mult_le [of "galaxyAmplitude p"] amp by simp
  have z1: "swirl = 0 \<longleftrightarrow> sin (galaxyPhase p + radius * 0.22) = 0"
    unfolding swirl_def using tw by simp
  have z2: "pulse = 1 \<longleftrightarrow> sin (galaxyPhase p * 1.7 + radius * 0.08) = 0"
    unfolding pulse_def using pu(1) by simp
  have z3: "wobble = 0 \<longleftrightarrow> sin (galaxyPhase p + radius * 0.19) = 0"
    unfolding wobble_def using amp by simp
  have base: "swirl_xyz 0 p = galaxyBase p
                \<longleftrightarrow> radius = 0 \<and> (galaxyPhase p = 0 \<or> galaxyPhase p = pi)"
    unfolding radius_def by (rule base_only_on_axis [OF assms(5)])
  have "0 \<le> pulse" using b2 pu(2) by linarith
  then have rad: "hypot (vx (swirl_xyz 0 p)) (vz (swirl_xyz 0 p)) = pulse * radius"
    using swirl_xyz_radius [of 0 p] unfolding pulse_def radius_def by simp
  have sp: "\<forall>speed. swirl_xyz 0 (p\<lparr>galaxySpeed := speed\<rparr>) = swirl_xyz 0 p"
    by (simp add: swirl_xyz_speed)
  have off: "\<forall>w c. w \<le> 0.001 \<longrightarrow> particle_position 0 w c p = swirl_xyz 0 p"
    by (simp add: particle_position_def disturb_off)
  from eq b1 b2 b3 z1 z2 z3 base rad sp off show ?thesis by blast
qed

theorem position_at_elapsed_zero_witness:
  "galaxy_ranges particle_swirl
   \<and> swirl_xyz 0 particle_swirl
       = Vector3 (625 / 147 * pi * cos 0.0018)
           (sin (230 / 147 * pi + 625 / 147 * pi * 0.19) * 0.08)
           (625 / 147 * pi * sin 0.0018)
   \<and> galaxy_ranges particle_pulse
   \<and> swirl_xyz 0 particle_pulse
       = Vector3 (200 / 49 * pi * 1.004) (sin (5 / 49 * pi + 200 / 49 * pi * 0.19) * 0.08) 0
   \<and> galaxy_ranges particle_0
   \<and> swirl_xyz 0 particle_0 = galaxyBase particle_0"
proof -
  have r0: "galaxy_ranges particle_0"
    by (simp add: galaxy_ranges_def particle_0_def hypot_def)
  have h0: "hypot (vx (galaxyBase particle_0)) (vz (galaxyBase particle_0)) = 0"
    by (simp add: particle_0_def hypot_def)
  have hs: "hypot (vx (galaxyBase particle_swirl)) (vz (galaxyBase particle_swirl)) = 625 / 147 * pi"
    and hp: "hypot (vx (galaxyBase particle_pulse)) (vz (galaxyBase particle_pulse)) = 200 / 49 * pi"
    by (simp_all add: particle_swirl_def particle_pulse_def hypot_axis)
  from position_at_elapsed_zero [OF ranges_swirl]
  have "swirl_xyz 0 particle_swirl =
          Vector3 ((vx (galaxyBase particle_swirl) * cos (sin (5 / 2 * pi) * galaxyTwist particle_swirl)
                    - vz (galaxyBase particle_swirl) * sin (sin (5 / 2 * pi) * galaxyTwist particle_swirl))
                   * (1 + sin (3 * pi) * galaxyPulse particle_swirl))
            (vy (galaxyBase particle_swirl)
              + sin (galaxyPhase particle_swirl
                     + hypot (vx (galaxyBase particle_swirl)) (vz (galaxyBase particle_swirl)) * 0.19)
                * galaxyAmplitude particle_swirl)
            ((vx (galaxyBase particle_swirl) * sin (sin (5 / 2 * pi) * galaxyTwist particle_swirl)
                    + vz (galaxyBase particle_swirl) * cos (sin (5 / 2 * pi) * galaxyTwist particle_swirl))
                   * (1 + sin (3 * pi) * galaxyPulse particle_swirl))"
    unfolding args_swirl by blast
  then have a: "swirl_xyz 0 particle_swirl
       = Vector3 (625 / 147 * pi * cos 0.0018)
           (sin (230 / 147 * pi + 625 / 147 * pi * 0.19) * 0.08)
           (625 / 147 * pi * sin 0.0018)"
    unfolding sin_five_half_pi sin_three_pi hs by (simp add: particle_swirl_def)
  from position_at_elapsed_zero [OF ranges_pulse]
  have "swirl_xyz 0 particle_pulse =
          Vector3 ((vx (galaxyBase particle_pulse) * cos (sin pi * galaxyTwist particle_pulse)
                    - vz (galaxyBase particle_pulse) * sin (sin pi * galaxyTwist particle_pulse))
                   * (1 + sin (pi / 2) * galaxyPulse particle_pulse))
            (vy (galaxyBase particle_pulse)
              + sin (galaxyPhase particle_pulse
                     + hypot (vx (galaxyBase particle_pulse)) (vz (galaxyBase particle_pulse)) * 0.19)
                * galaxyAmplitude particle_pulse)
            ((vx (galaxyBase particle_pulse) * sin (sin pi * galaxyTwist particle_pulse)
                    + vz (galaxyBase particle_pulse) * cos (sin pi * galaxyTwist particle_pulse))
                   * (1 + sin (pi / 2) * galaxyPulse particle_pulse))"
    unfolding args_pulse by blast
  then have b: "swirl_xyz 0 particle_pulse
       = Vector3 (200 / 49 * pi * 1.004) (sin (5 / 49 * pi + 200 / 49 * pi * 0.19) * 0.08) 0"
    unfolding hp by (simp add: particle_pulse_def)
  from position_at_elapsed_zero [OF r0]
  have c: "swirl_xyz 0 particle_0 = galaxyBase particle_0"
    unfolding h0 by (simp add: particle_0_def)
  from ranges_swirl a ranges_pulse b r0 c show ?thesis by blast
qed

lemma swirl_xyz_zero_at:
  assumes "galaxyPhase p + hypot (vx (galaxyBase p)) (vz (galaxyBase p)) * 0.22 = A"
    and "galaxyPhase p * 1.7 + hypot (vx (galaxyBase p)) (vz (galaxyBase p)) * 0.08 = B"
  shows "swirl_xyz 0 p =
     Vector3
       ((vx (galaxyBase p) * cos (sin A * galaxyTwist p)
         - vz (galaxyBase p) * sin (sin A * galaxyTwist p)) * (1 + sin B * galaxyPulse p))
       (vy (galaxyBase p)
         + sin (galaxyPhase p + hypot (vx (galaxyBase p)) (vz (galaxyBase p)) * 0.19)
           * galaxyAmplitude p)
       ((vx (galaxyBase p) * sin (sin A * galaxyTwist p)
         + vz (galaxyBase p) * cos (sin A * galaxyTwist p)) * (1 + sin B * galaxyPulse p))"
  unfolding assms [symmetric] by (rule swirl_xyz_zero)

lemma swirl_xyz_particle_swirl:
  "swirl_xyz 0 particle_swirl
     = Vector3 (625 / 147 * pi * cos 0.0018)
         (sin (230 / 147 * pi + 625 / 147 * pi * 0.19) * 0.08)
         (625 / 147 * pi * sin 0.0018)"
proof -
  have hs: "hypot (vx (galaxyBase particle_swirl)) (vz (galaxyBase particle_swirl)) = 625 / 147 * pi"
    by (simp add: particle_swirl_def hypot_axis)
  show ?thesis
    unfolding swirl_xyz_zero_at [OF args_swirl] sin_five_half_pi sin_three_pi hs
    by (simp add: particle_swirl_def)
qed

lemma swirl_xyz_particle_pulse:
  "swirl_xyz 0 particle_pulse
     = Vector3 (200 / 49 * pi * 1.004) (sin (5 / 49 * pi + 200 / 49 * pi * 0.19) * 0.08) 0"
proof -
  have hp: "hypot (vx (galaxyBase particle_pulse)) (vz (galaxyBase particle_pulse)) = 200 / 49 * pi"
    by (simp add: particle_pulse_def hypot_axis)
  show ?thesis
    unfolding swirl_xyz_zero_at [OF args_pulse] hp
    by (simp add: particle_pulse_def)
qed

theorem position_at_elapsed_zero_counterexample:
  "galaxy_ranges particle_q
   \<and> galaxyBase particle_q = Vector3 0 0 0
   \<and> particle_position 0 0 (Vector3 0 0 0) particle_q = Vector3 0 0.08 0
   \<and> swirl_xyz 0 particle_q \<noteq> galaxyBase particle_q
   \<and> galaxy_ranges particle_pulse
   \<and> galaxyBase particle_pulse = Vector3 (200 / 49 * pi) 0 0
   \<and> vx (particle_position 0 0 (Vector3 0 0 0) particle_pulse) = 200 / 49 * pi * 1.004
   \<and> swirl_xyz 0 particle_pulse \<noteq> galaxyBase particle_pulse
   \<and> galaxy_ranges particle_swirl
   \<and> galaxyBase particle_swirl = Vector3 (625 / 147 * pi) 0 0
   \<and> vz (particle_position 0 0 (Vector3 0 0 0) particle_swirl) = 625 / 147 * pi * sin 0.0018
   \<and> 0 < sin (0.0018 :: real)
   \<and> swirl_xyz 0 particle_swirl \<noteq> galaxyBase particle_swirl"
proof -
  have rq: "galaxy_ranges particle_q"
    by (simp add: galaxy_ranges_def particle_q_def hypot_def)
  have sw: "swirl_xyz 0 particle_q = Vector3 0 0.08 0"
    by (simp add: swirl_xyz_def Let_def particle_q_def hypot_def)
  have pq: "particle_position 0 0 (Vector3 0 0 0) particle_q = Vector3 0 0.08 0"
    by (simp add: particle_position_def disturb_def sw)
  have bq: "galaxyBase particle_q = Vector3 0 0 0" by (simp add: particle_q_def)
  have nq: "swirl_xyz 0 particle_q \<noteq> galaxyBase particle_q" unfolding sw bq by simp
  have bp: "galaxyBase particle_pulse = Vector3 (200 / 49 * pi) 0 0"
    by (simp add: particle_pulse_def)
  have pp: "vx (particle_position 0 0 (Vector3 0 0 0) particle_pulse) = 200 / 49 * pi * 1.004"
    by (simp add: particle_position_def disturb_def swirl_xyz_particle_pulse)
  have np: "swirl_xyz 0 particle_pulse \<noteq> galaxyBase particle_pulse"
    unfolding swirl_xyz_particle_pulse bp using pi_gt_zero by simp
  have bs: "galaxyBase particle_swirl = Vector3 (625 / 147 * pi) 0 0"
    by (simp add: particle_swirl_def)
  have ps: "vz (particle_position 0 0 (Vector3 0 0 0) particle_swirl) = 625 / 147 * pi * sin 0.0018"
    by (simp add: particle_position_def disturb_def swirl_xyz_particle_swirl)
  have pos: "0 < sin (0.0018 :: real)"
    using pi_ge_two by (intro sin_gt_zero) simp_all
  have ns: "swirl_xyz 0 particle_swirl \<noteq> galaxyBase particle_swirl"
    unfolding swirl_xyz_particle_swirl bs using pos pi_gt_zero by simp
  from rq bq pq nq ranges_pulse bp pp np ranges_swirl bs ps pos ns show ?thesis by blast
qed

subsection \<open>Zero-length directions\<close>

lemma lengthSq_nonneg: "0 \<le> lengthSq a"
  by (simp add: lengthSq_def)

lemma lengthSq_zero_iff: "lengthSq a = 0 \<longleftrightarrow> a = Vector3 0 0 0"
proof (cases a)
  case (Vector3 p q r)
  have "p * p + q * q + r * r = 0 \<longleftrightarrow> p = 0 \<and> q = 0 \<and> r = 0"
    using sum_power2_eq_zero_iff [of p q] sum_power2_eq_zero_iff [of "sqrt (p\<^sup>2 + q\<^sup>2)" r]
    by (auto simp: power2_eq_square[symmetric])
  then show ?thesis using Vector3 by (simp add: lengthSq_def)
qed

lemma length_v_zero_iff: "length_v a = 0 \<longleftrightarrow> a = Vector3 0 0 0"
  by (simp add: length_v_def lengthSq_zero_iff)

lemma normalize_v_Some:
  "normalize_v a = Some (if a = Vector3 0 0 0 then Vector3 0 0 0
                         else multiplyScalar a (1 / length_v a))"
  by (simp add: normalize_v_def divideScalar_def length_v_zero_iff multiplyScalar_def)

lemma lengthSq_multiplyScalar: "lengthSq (multiplyScalar a k) = k * k * lengthSq a"
  by (simp add: lengthSq_def multiplyScalar_def algebra_simps)

lemma lengthSq_unit:
  assumes "a \<noteq> Vector3 0 0 0"
  shows "lengthSq (multiplyScalar a (1 / length_v a)) = 1"
proof -
  have pos: "0 < lengthSq a"
    using lengthSq_nonneg [of a] lengthSq_zero_iff [of a] assms by linarith
  have "length_v a * length_v a = lengthSq a"
    using lengthSq_nonneg [of a] by (simp add: length_v_def)
  then show ?thesis
    using pos by (simp add: lengthSq_multiplyScalar length_v_def)
qed

lemma curveNormal_eq:
  "curveNormal midpoint =
     Some (if midpoint = Vector3 0 0 0 then Vector3 0 1 0
           else multiplyScalar midpoint (1 / length_v midpoint))"
  by (simp add: curveNormal_def normalize_v_Some lengthSq_unit) (simp add: lengthSq_def)

lemma approachDirection_eq:
  "approachDirection cameraPos focusTarget =
     Some (if lengthSq (sub_v cameraPos focusTarget) < 0.0001 then Vector3 0 0 1
           else multiplyScalar (sub_v cameraPos focusTarget)
                  (1 / length_v (sub_v cameraPos focusTarget)))"
proof (cases "lengthSq (sub_v cameraPos focusTarget) < 0.0001")
  case True
  then show ?thesis
    by (simp add: approachDirection_def Let_def normalize_v_Some length_v_def lengthSq_def
        multiplyScalar_def)
next
  case False
  then have "sub_v cameraPos focusTarget \<noteq> Vector3 0 0 0"
    using lengthSq_zero_iff [of "sub_v cameraPos focusTarget"] by auto
  with False show ?thesis
    by (simp add: approachDirection_def Let_def normalize_v_Some)
qed

lemma collect_Some: "\<forall>x\<in>set xs. x \<noteq> None \<Longrightarrow> collect xs \<noteq> None"
  by (induction xs rule: collect.induct) (auto split: option.splits)

lemma curve_points_Some: "curve_points sitePoints from c \<noteq> None"
  by (simp add: curve_points_def Let_def curveNormal_eq)

lemma curveSegments_Some: "curveSegments sitePoints \<noteq> None"
  unfolding curveSegments_def
  using curve_points_Some by (intro collect_Some) fastforce

lemma focus_effect_Some: "focus_effect focusSite getWorldPosition s \<noteq> None"
  by (simp add: focus_effect_def Let_def approachDirection_eq split: option.splits)

lemma onPointerMove_Some: "onPointerMove clientX clientY disturbProject s \<noteq> None"
  by (simp add: onPointerMove_def Let_def normalize_v_Some split: option.splits)

subsection \<open>Constellation edges\<close>

lemma insort_key_map:
  "insort_key f (g x) (map g xs) = map g (insort_key (\<lambda>y. f (g y)) x xs)"
  by (induction xs) simp_all

lemma sort_key_map: "sort_key f (map g xs) = map g (sort_key (\<lambda>y. f (g y)) xs)"
  by (induction xs) (simp_all add: insort_key_map)

lemma filter_gt_upt: "filter (\<lambda>j. i < j) [0..<n] = [Suc i..<n]"
proof (induction n)
  case 0
  then show ?case by simp
next
  case (Suc n)
  then show ?case by (cases "i < n") (simp_all add: upt_rec[symmetric] Suc_lessI)
qed

lemma candidates_eq:
  "candidates sitePoints index =
     map (\<lambda>j. \<lparr>point = sitePoints ! j, pointIndex = j,
                distance = distanceToSquared (sitePoints ! index) (sitePoints ! j)\<rparr>)
       (take 2 (sort_key (\<lambda>j. distanceToSquared (sitePoints ! index) (sitePoints ! j))
                  [Suc index..<length sitePoints]))"
proof -
  have f: "filter (\<lambda>(pt, i). i > index) (map (\<lambda>i. (sitePoints ! i, i)) [0..<length sitePoints])
        = map (\<lambda>i. (sitePoints ! i, i)) [Suc index..<length sitePoints]"
    by (simp add: filter_map comp_def filter_gt_upt)
  show ?thesis
    unfolding candidates_def Let_def f
    by (simp add: sort_key_map take_map comp_def)
qed

lemma candidates_indices:
  "map pointIndex (candidates sitePoints index) =
     take 2 (sort_key (\<lambda>j. distanceToSquared (sitePoints ! index) (sitePoints ! j))
               [Suc index..<length sitePoints])"
  by (simp add: candidates_eq comp_def)

text \<open>Nearer first, and the lower index first among equally near ones.\<close>

lemma insort_key_nearer:
  fixes d :: "nat \<Rightarrow> real"
  assumes "sorted_wrt (\<lambda>j k. d j < d k \<or> (d j = d k \<and> j < k)) ys"
    and "\<forall>y\<in>set ys. x < y"
  shows "sorted_wrt (\<lambda>j k. d j < d k \<or> (d j = d k \<and> j < k)) (insort_key d x ys)"
  using assms
proof (induction ys)
  case Nil
  then show ?case by simp
next
  case (Cons y ys)
  show ?case
  proof (cases "d x \<le> d y")
    case True
    have "d x < d z \<or> (d x = d z \<and> x < z)" if "z \<in> set (y # ys)" for z
    proof -
      have "d y \<le> d z" using that Cons.prems(1) by auto
      moreover have "x < z" using that Cons.prems(2) by auto
      ultimately show ?thesis using True by linarith
    qed
    then show ?thesis using True Cons.prems(1) by simp
  next
    case False
    have ih: "sorted_wrt (\<lambda>j k. d j < d k \<or> (d j = d k \<and> j < k)) (insort_key d x ys)"
      using Cons by simp
    have "d y < d z \<or> (d y = d z \<and> y < z)" if "z \<in> set (insort_key d x ys)" for z
      using that False Cons.prems(1) by (auto simp: set_insort_key)
    then show ?thesis using False ih by simp
  qed
qed

lemma sort_key_nearer:
  fixes d :: "nat \<Rightarrow> real"
  assumes "sorted_wrt (<) js"
  shows "sorted_wrt (\<lambda>j k. d j < d k \<or> (d j = d k \<and> j < k)) (sort_key d js)"
  using assms
proof (induction js)
  case Nil
  then show ?case by simp
next
  case (Cons j js)
  then show ?case by (simp add: insort_key_nearer)
qed

lemma take_two_nearest:
  fixes d :: "nat \<Rightarrow> real"
  assumes "sorted_wrt (\<lambda>j k. d j < d k \<or> (d j = d k \<and> j < k)) xs"
    and "j \<in> set (take m xs)" and "k \<in> set xs" and "k \<notin> set (take m xs)"
  shows "d j < d k \<or> (d j = d k \<and> j < k)"
proof -
  have "k \<in> set (drop m xs)"
    using assms(3,4) set_append [of "take m xs" "drop m xs"] by auto
  moreover have "sorted_wrt (\<lambda>j k. d j < d k \<or> (d j = d k \<and> j < k)) (take m xs @ drop m xs)"
    using assms(1) by simp
  ultimately show ?thesis
    using assms(2) unfolding sorted_wrt_append by blast
qed

lemma edges_from:
  assumes "index < n"
  shows "map snd (filter (\<lambda>e. fst e = index)
                    (concat (map (\<lambda>i. map (\<lambda>c. (i, pointIndex c)) (g i)) [0..<n])))
         = map pointIndex (g index)"
  using assms
proof (induction n)
  case 0
  then show ?case by simp
next
  case (Suc n)
  have none: "filter (\<lambda>e. fst e = index)
                (concat (map (\<lambda>i. map (\<lambda>c. (i, pointIndex c)) (g i)) [0..<n])) = []"
    if "n \<le> index"
    using that by (auto simp: filter_empty_conv)
  show ?case
  proof (cases "index = n")
    case True
    then show ?thesis using none by (simp add: comp_def)
  next
    case False
    then have "index < n" using Suc.prems by simp
    then show ?thesis using Suc.IH False by (simp add: comp_def)
  qed
qed

lemma getPoint_ends: "getPoint v0 v1 v2 0 = v0" "getPoint v0 v1 v2 1 = v2"
  by (simp_all add: getPoint_def QuadraticBezier_def)

lemma getPoints_nth:
  "i \<le> n \<Longrightarrow> getPoints v0 v1 v2 n ! i = getPoint v0 v1 v2 (real i / real n)"
  unfolding getPoints_def by (subst nth_map) (simp_all del: upt_Suc)

lemma segments_shape:
  fixes sp :: "'a list"
  shows "length (concat (map (\<lambda>i. [sp ! i, sp ! (i + 1)]) [0..<Suc n])) = 2 * Suc n
    \<and> hd (concat (map (\<lambda>i. [sp ! i, sp ! (i + 1)]) [0..<Suc n])) = sp ! 0
    \<and> last (concat (map (\<lambda>i. [sp ! i, sp ! (i + 1)]) [0..<Suc n])) = sp ! Suc n"
proof (induction n)
  case 0
  then show ?case by simp
next
  case (Suc n)
  have "concat (map (\<lambda>i. [sp ! i, sp ! (i + 1)]) [0..<Suc (Suc n)])
        = concat (map (\<lambda>i. [sp ! i, sp ! (i + 1)]) [0..<Suc n]) @ [sp ! Suc n, sp ! Suc (Suc n)]"
    by simp
  moreover have "concat (map (\<lambda>i. [sp ! i, sp ! (i + 1)]) [0..<Suc n]) \<noteq> []"
    by simp
  ultimately show ?case using Suc by (simp del: upt_Suc)
qed

lemma curve_points_shape:
  "\<exists>ps. curve_points sitePoints from c = Some ps \<and> length ps = 28
        \<and> hd ps = from \<and> last ps = sitePoints ! pointIndex c"
proof -
  obtain normal where n: "curveNormal (multiplyScalar (add_v from (sitePoints ! pointIndex c)) 0.5)
                             = Some normal"
    by (simp add: curveNormal_eq)
  let ?control = "addScaledVector (multiplyScalar (add_v from (sitePoints ! pointIndex c)) 0.5)
                    normal (0.2 * sqrt (distance c) + 1.2)"
  let ?sp = "getPoints from ?control (sitePoints ! pointIndex c) 14"
  have len: "length ?sp - 1 = Suc 13" by (simp add: getPoints_def)
  have cp: "curve_points sitePoints from c
              = Some (concat (map (\<lambda>i. [?sp ! i, ?sp ! (i + 1)]) [0..<Suc 13]))"
    unfolding curve_points_def Let_def n option.case len by (rule refl)
  have ends: "?sp ! 0 = from" "?sp ! Suc 13 = sitePoints ! pointIndex c"
    by (simp_all add: getPoints_nth getPoint_ends)
  show ?thesis
    unfolding cp using segments_shape [of ?sp 13] ends by simp
qed

lemma collect_all2:
  assumes "\<forall>x\<in>set xs. \<exists>ps. f x = Some ps \<and> P x ps"
  shows "\<exists>curves. collect (map f xs) = Some (concat curves) \<and> list_all2 P xs curves"
  using assms
proof (induction xs)
  case Nil
  then show ?case by simp
next
  case (Cons x xs)
  then obtain ps where ps: "f x = Some ps" "P x ps" by auto
  from Cons obtain curves where c: "collect (map f xs) = Some (concat curves)"
    "list_all2 P xs curves" by auto
  show ?case
    by (rule exI [of _ "ps # curves"]) (simp add: ps c)
qed

lemma candidate_fields:
  assumes "c \<in> set (candidates sitePoints index)"
  shows "c = \<lparr>point = sitePoints ! pointIndex c, pointIndex = pointIndex c,
              distance = distanceToSquared (sitePoints ! index) (sitePoints ! pointIndex c)\<rparr>"
  using assms unfolding candidates_eq by auto

lemma curveSegments_curves:
  "\<exists>curves. curveSegments sitePoints = Some (concat curves)
     \<and> list_all2
          (\<lambda>e ps. curve_points sitePoints (sitePoints ! fst e)
                     \<lparr>point = sitePoints ! snd e, pointIndex = snd e,
                      distance = distanceToSquared (sitePoints ! fst e) (sitePoints ! snd e)\<rparr>
                   = Some ps
                 \<and> length ps = 28 \<and> hd ps = sitePoints ! fst e \<and> last ps = sitePoints ! snd e)
          (constellation_edges sitePoints) curves"
proof -
  let ?L = "concat (map (\<lambda>index. map (Pair index) (candidates sitePoints index))
                     [0..<length sitePoints])"
  let ?f = "\<lambda>x. curve_points sitePoints (sitePoints ! fst x) (snd x)"
  let ?h = "\<lambda>x. (fst x, pointIndex (snd x))"
  let ?Q = "\<lambda>e ps. curve_points sitePoints (sitePoints ! fst e)
                     \<lparr>point = sitePoints ! snd e, pointIndex = snd e,
                      distance = distanceToSquared (sitePoints ! fst e) (sitePoints ! snd e)\<rparr>
                   = Some ps
                 \<and> length ps = 28 \<and> hd ps = sitePoints ! fst e \<and> last ps = sitePoints ! snd e"
  have seg: "curveSegments sitePoints = collect (map ?f ?L)"
    by (simp add: curveSegments_def map_concat comp_def)
  have edg: "constellation_edges sitePoints = map ?h ?L"
    by (simp add: constellation_edges_def map_concat comp_def)
  have "\<forall>x\<in>set ?L. \<exists>ps. ?f x = Some ps \<and> ?Q (?h x) ps"
  proof
    fix x
    assume "x \<in> set ?L"
    then have c: "snd x \<in> set (candidates sitePoints (fst x))" by auto
    from curve_points_shape [of sitePoints "sitePoints ! fst x" "snd x"]
    obtain ps where ps: "?f x = Some ps" "length ps = 28" "hd ps = sitePoints ! fst x"
      "last ps = sitePoints ! pointIndex (snd x)" by blast
    have "?Q (?h x) ps"
      using ps candidate_fields [OF c] by simp
    with ps(1) show "\<exists>ps. ?f x = Some ps \<and> ?Q (?h x) ps" by blast
  qed
  from collect_all2 [OF this] obtain curves where
    "collect (map ?f ?L) = Some (concat curves)" "list_all2 (\<lambda>x. ?Q (?h x)) ?L curves"
    by blast
  then show ?thesis unfolding seg edg by (auto simp: list_all2_map1)
qed

lemma concat_length_all2:
  "list_all2 (\<lambda>e ps. length ps = k \<and> Q e ps) es curves \<Longrightarrow>
   length (concat curves) = k * length es"
  by (induction es curves rule: list_all2_induct) simp_all

text \<open>
  C2. For each node index, the builder's curves go to the 2 nodes of higher index that are
  nearest by squared distance (to all of them when fewer than 2 exist), a tie going to the
  lower index: the targets are distinct higher indices, listed nearer first, and every
  higher index that is not a target is farther than each target, or equally far with a
  higher index. The edges leaving a node are exactly these, so every edge goes to a
  strictly higher index and no edge is a self-edge. What the builder emits,
  \<open>curveSegments\<close>, is the concatenation of one curve per edge, in the order of the edges:
  the curve of an edge is the 28 points (14 segments) sampled from the quadratic curve of
  that candidate, from the node to the target.
\<close>

theorem constellation_two_nearest:
  assumes "index < length sitePoints"
  shows "length (candidates sitePoints index) = min 2 (length sitePoints - Suc index)
    \<and> distinct (map pointIndex (candidates sitePoints index))
    \<and> (\<forall>c\<in>set (candidates sitePoints index).
          index < pointIndex c \<and> pointIndex c < length sitePoints
          \<and> point c = sitePoints ! pointIndex c
          \<and> distance c = distanceToSquared (sitePoints ! index) (sitePoints ! pointIndex c))
    \<and> (\<forall>c\<in>set (candidates sitePoints index).
          \<forall>k. index < k \<and> k < length sitePoints
               \<and> k \<notin> pointIndex ` set (candidates sitePoints index)
            \<longrightarrow> distance c < distanceToSquared (sitePoints ! index) (sitePoints ! k)
                \<or> (distance c = distanceToSquared (sitePoints ! index) (sitePoints ! k)
                    \<and> pointIndex c < k))
    \<and> sorted_wrt (\<lambda>a b. distance a < distance b
                          \<or> (distance a = distance b \<and> pointIndex a < pointIndex b))
         (candidates sitePoints index)
    \<and> map snd (filter (\<lambda>e. fst e = index) (constellation_edges sitePoints))
        = map pointIndex (candidates sitePoints index)
    \<and> (\<forall>e\<in>set (constellation_edges sitePoints). fst e < snd e \<and> snd e < length sitePoints)
    \<and> (\<forall>c\<in>set (candidates sitePoints index).
          \<exists>ps. curve_points sitePoints (sitePoints ! index) c = Some ps \<and> length ps = 28
               \<and> hd ps = sitePoints ! index \<and> last ps = sitePoints ! pointIndex c)
    \<and> (\<exists>curves. curveSegments sitePoints = Some (concat curves)
          \<and> list_all2
               (\<lambda>e ps. curve_points sitePoints (sitePoints ! fst e)
                          \<lparr>point = sitePoints ! snd e, pointIndex = snd e,
                           distance = distanceToSquared (sitePoints ! fst e) (sitePoints ! snd e)\<rparr>
                        = Some ps
                      \<and> length ps = 28 \<and> hd ps = sitePoints ! fst e
                      \<and> last ps = sitePoints ! snd e)
               (constellation_edges sitePoints) curves)"
proof -
  let ?d = "\<lambda>j. distanceToSquared (sitePoints ! index) (sitePoints ! j)"
  let ?g = "\<lambda>j. \<lparr>point = sitePoints ! j, pointIndex = j, distance = ?d j\<rparr>"
  let ?all = "sort_key ?d [Suc index..<length sitePoints]"
  let ?js = "take 2 ?all"
  let ?lt = "\<lambda>j k. ?d j < ?d k \<or> (?d j = ?d k \<and> j < k)"
  have cs: "candidates sitePoints index = map ?g ?js" by (rule candidates_eq)
  have js: "map pointIndex (candidates sitePoints index) = ?js" by (rule candidates_indices)
  have sub: "set ?js \<subseteq> {Suc index..<length sitePoints}"
    using set_take_subset [of 2 ?all] by simp
  have len: "length (candidates sitePoints index) = min 2 (length sitePoints - Suc index)"
    unfolding cs by simp
  have dist: "distinct (map pointIndex (candidates sitePoints index))"
    unfolding js by (rule distinct_take) simp
  have fields: "\<forall>c\<in>set (candidates sitePoints index).
          index < pointIndex c \<and> pointIndex c < length sitePoints
          \<and> point c = sitePoints ! pointIndex c
          \<and> distance c = ?d (pointIndex c)"
    unfolding cs using sub by auto
  have srt: "sorted_wrt ?lt ?all"
    by (rule sort_key_nearer) (simp add: sorted_wrt_iff_nth_less)
  have near: "\<forall>c\<in>set (candidates sitePoints index).
          \<forall>k. index < k \<and> k < length sitePoints
               \<and> k \<notin> pointIndex ` set (candidates sitePoints index)
            \<longrightarrow> distance c < ?d k \<or> (distance c = ?d k \<and> pointIndex c < k)"
  proof (intro ballI allI impI)
    fix c k
    assume c: "c \<in> set (candidates sitePoints index)"
      and k: "index < k \<and> k < length sitePoints
               \<and> k \<notin> pointIndex ` set (candidates sitePoints index)"
    from c obtain j where j: "j \<in> set ?js" "c = ?g j" unfolding cs by auto
    have "pointIndex ` set (candidates sitePoints index) = set ?js"
      using js by (metis set_map)
    then have "k \<notin> set ?js" using k by simp
    moreover have "k \<in> set ?all" using k by simp
    ultimately have "?lt j k" using take_two_nearest [OF srt j(1)] by blast
    then show "distance c < ?d k \<or> (distance c = ?d k \<and> pointIndex c < k)"
      using j(2) by simp
  qed
  have "sorted_wrt ?lt ?js" using srt by (rule sorted_wrt_take)
  then have sorted: "sorted_wrt (\<lambda>a b. distance a < distance b
                          \<or> (distance a = distance b \<and> pointIndex a < pointIndex b))
         (candidates sitePoints index)"
    unfolding cs by (simp add: sorted_wrt_map)
  have from_index: "map snd (filter (\<lambda>e. fst e = index) (constellation_edges sitePoints))
        = map pointIndex (candidates sitePoints index)"
    unfolding constellation_edges_def by (rule edges_from [OF assms])
  have up: "\<forall>e\<in>set (constellation_edges sitePoints). fst e < snd e \<and> snd e < length sitePoints"
  proof
    fix e
    assume "e \<in> set (constellation_edges sitePoints)"
    then obtain i c where ic: "i < length sitePoints" "c \<in> set (candidates sitePoints i)"
      "e = (i, pointIndex c)"
      unfolding constellation_edges_def by auto
    have "pointIndex c \<in> set (map pointIndex (candidates sitePoints i))"
      using ic(2) by simp
    then have "pointIndex c \<in> {Suc i..<length sitePoints}"
      unfolding candidates_indices using set_take_subset by fastforce
    then show "fst e < snd e \<and> snd e < length sitePoints" using ic(3) by simp
  qed
  have curves: "\<forall>c\<in>set (candidates sitePoints index).
          \<exists>ps. curve_points sitePoints (sitePoints ! index) c = Some ps \<and> length ps = 28
               \<and> hd ps = sitePoints ! index \<and> last ps = sitePoints ! pointIndex c"
    using curve_points_shape by blast
  note emitted_curves = curveSegments_curves [of sitePoints]
  from len dist fields near sorted from_index up curves emitted_curves show ?thesis by blast
qed

theorem constellation_two_nearest_witness:
  "(0::nat) < length points4
   \<and> map pointIndex (candidates points4 0) = [1, 2]
   \<and> distanceToSquared (points4 ! 0) (points4 ! 2) = distanceToSquared (points4 ! 0) (points4 ! 3)
   \<and> (3::nat) \<notin> set [1, 2]
   \<and> constellation_edges points4 = [(0, 1), (0, 2), (1, 2), (1, 3), (2, 3)]
   \<and> map snd (filter (\<lambda>e. fst e = 0) (constellation_edges points4)) = [1, 2]
   \<and> map_option length (curveSegments points4) = Some 140"
proof -
  have h: "(0::nat) < length points4" by (simp add: points4_def)
  have js: "map pointIndex (candidates points4 0) = [1, 2]"
    by (simp add: candidates_indices points4_def distanceToSquared_def upt_rec)
  have tie: "distanceToSquared (points4 ! 0) (points4 ! 2)
               = distanceToSquared (points4 ! 0) (points4 ! 3)"
    by (simp add: points4_def distanceToSquared_def)
  have edges: "constellation_edges points4 = [(0, 1), (0, 2), (1, 2), (1, 3), (2, 3)]"
    by (simp add: constellation_edges_def candidates_eq points4_def distanceToSquared_def upt_rec)
  from constellation_two_nearest [OF h]
  have "map snd (filter (\<lambda>e. fst e = 0) (constellation_edges points4))
          = map pointIndex (candidates points4 0)"
    by blast
  with js have from0: "map snd (filter (\<lambda>e. fst e = 0) (constellation_edges points4)) = [1, 2]"
    by simp
  from constellation_two_nearest [OF h]
  obtain curves where c: "curveSegments points4 = Some (concat curves)"
    "list_all2
       (\<lambda>e ps. length ps = 28
              \<and> (curve_points points4 (points4 ! fst e)
                          \<lparr>point = points4 ! snd e, pointIndex = snd e,
                           distance = distanceToSquared (points4 ! fst e) (points4 ! snd e)\<rparr>
                        = Some ps
                   \<and> hd ps = points4 ! fst e \<and> last ps = points4 ! snd e))
       (constellation_edges points4) curves"
    by (auto simp: conj_ac)
  have "length (concat curves) = 28 * length (constellation_edges points4)"
    by (rule concat_length_all2 [OF c(2)])
  then have segs: "map_option length (curveSegments points4) = Some 140"
    by (simp add: c(1) edges)
  from h js tie edges from0 segs show ?thesis by simp
qed

subsection \<open>One tick of the tweens\<close>

lemma write_target_frame:
  "tweens (write_target g v s) = tweens s"
  "runtimeRef (write_target g v s) = runtimeRef s"
  "emitted (write_target g v s) = emitted s"
  "nextTween (write_target g v s) = nextTween s"
  by (simp_all add: write_target_def split: tween_target.splits)

lemma onUpdate_frame:
  "tweens (onUpdate tw s) = tweens s"
  "runtimeRef (onUpdate tw s) = runtimeRef s"
  "emitted (onUpdate tw s) = emitted s"
  "nextTween (onUpdate tw s) = nextTween s"
  "controlsTarget (onUpdate tw s) = controlsTarget s"
  "meshScale (onUpdate tw s) = meshScale s"
  by (simp_all add: onUpdate_def controls_update_frame)

lemma onComplete_frame:
  "tweens (onComplete st s) = tweens s"
  "runtimeRef (onComplete st s) = runtimeRef s"
  "nextTween (onComplete st s) = nextTween s"
  "cameraPosition (onComplete st s) = cameraPosition s"
  "controlsTarget (onComplete st s) = controlsTarget s"
  by (simp_all add: onComplete_def emit_def split: option.splits)

lemma tween_tick_runtimeRef: "runtimeRef (tween_tick e dt itw s) = runtimeRef s"
  by (simp add: tween_tick_def Let_def write_target_frame onUpdate_frame onComplete_frame split: option.splits)

lemma tween_tick_nextTween: "nextTween (tween_tick e dt itw s) = nextTween s"
  by (simp add: tween_tick_def Let_def write_target_frame onUpdate_frame onComplete_frame split: option.splits)

lemma tween_tick_emitted:
  "emitted (tween_tick e dt itw s) =
     emitted s @ (if fst itw \<in> fst ` set (tweens s) \<and> finishes dt itw
                  then fired (runtimeRef s) itw else [])"
  by (simp add: tween_tick_def Let_def write_target_frame onUpdate_frame onComplete_def emit_def fired_def
      finishes_def split: option.splits)

lemma filter_other_ids:
  assumes "distinct (map fst (P @ itw # ts))"
  shows "filter (\<lambda>(j, tw'). j \<noteq> fst itw) (P @ itw # ts) = P @ ts"
proof -
  have "\<forall>x\<in>set (P @ ts). fst x \<noteq> fst itw" using assms by (fastforce simp: image_iff)
  then have "filter (\<lambda>(j, tw'). j \<noteq> fst itw) (P @ ts) = P @ ts"
    by (intro filter_True) (simp add: case_prod_beta)
  then show ?thesis by (simp add: case_prod_beta)
qed

lemma map_own_id:
  assumes "distinct (map fst (P @ itw # ts))"
  shows "map (\<lambda>(j, tw'). if j = fst itw then (j, u) else (j, tw')) (P @ itw # ts)
         = P @ (fst itw, u) # ts"
proof -
  have "\<forall>x\<in>set (P @ ts). fst x \<noteq> fst itw" using assms by (fastforce simp: image_iff)
  then have "map (\<lambda>(j, tw'). if j = fst itw then (j, u) else (j, tw')) (P @ ts) = P @ ts"
    by (intro map_idI) (simp add: case_prod_beta)
  then show ?thesis by (simp add: case_prod_beta)
qed

lemma tween_tick_tweens:
  assumes "tweens s = P @ itw # ts" and "distinct (map fst (P @ itw # ts))"
  shows "\<exists>u. tweens (tween_tick e dt itw s) = P @ (if finishes dt itw then [] else [u]) @ ts
             \<and> unstarted u = advanced dt itw"
proof (cases "finishes dt itw")
  case True
  have "fst itw \<in> fst ` set (tweens s)" using assms(1) by simp
  then have "tweens (tween_tick e dt itw s) = filter (\<lambda>(j, tw'). j \<noteq> fst itw) (tweens s)"
    using True
    by (simp add: tween_tick_def Let_def write_target_frame onUpdate_frame onComplete_frame finishes_def
        split: option.splits)
  then have "tweens (tween_tick e dt itw s) = P @ ts"
    using filter_other_ids [OF assms(2)] assms(1) by simp
  moreover have "unstarted (advanced dt itw) = advanced dt itw"
    by (simp add: unstarted_def advanced_def)
  ultimately show ?thesis using True
    by (intro exI [of _ "advanced dt itw"]) simp
next
  case False
  have "fst itw \<in> fst ` set (tweens s)" using assms(1) by simp
  define st where "st = (case tw_start (snd itw) of
                           None \<Rightarrow> read_target (tw_target (snd itw)) s | Some v \<Rightarrow> v)"
  from \<open>fst itw \<in> fst ` set (tweens s)\<close> have
    "tweens (tween_tick e dt itw s)
       = map (\<lambda>(j, tw'). if j = fst itw
                then (j, (snd itw)\<lparr>tw_time := tw_time (snd itw) + dt, tw_start := Some st\<rparr>)
                else (j, tw')) (tweens s)"
    using False unfolding st_def
    by (simp add: tween_tick_def Let_def write_target_frame onUpdate_frame finishes_def)
  then have "tweens (tween_tick e dt itw s)
       = P @ (fst itw, (snd itw)\<lparr>tw_time := tw_time (snd itw) + dt, tw_start := Some st\<rparr>) # ts"
    using map_own_id [OF assms(2)] assms(1) by simp
  then show ?thesis using False by (simp add: unstarted_def advanced_def)
qed

lemma fold_tween_tick:
  assumes "tweens s = P @ ts @ Q" and "distinct (map fst (P @ ts @ Q))"
  shows "(\<exists>ts'. tweens (fold (tween_tick e dt) ts s) = P @ ts' @ Q
             \<and> map unstarted ts' = map (advanced dt) (filter (\<lambda>itw. \<not> finishes dt itw) ts))
    \<and> emitted (fold (tween_tick e dt) ts s)
           = emitted s @ concat (map (fired (runtimeRef s)) (filter (finishes dt) ts))
    \<and> runtimeRef (fold (tween_tick e dt) ts s) = runtimeRef s
    \<and> nextTween (fold (tween_tick e dt) ts s) = nextTween s"
  using assms
proof (induction ts arbitrary: s P)
  case Nil
  then show ?case by simp
next
  case (Cons itw ts)
  have p: "tweens s = P @ itw # (ts @ Q)" "distinct (map fst (P @ itw # (ts @ Q)))"
    using Cons.prems by simp_all
  obtain u where u:
    "tweens (tween_tick e dt itw s) = P @ (if finishes dt itw then [] else [u]) @ (ts @ Q)"
    "unstarted u = advanced dt itw"
    using tween_tick_tweens [OF p] by blast
  let ?P = "P @ (if finishes dt itw then [] else [u])"
  let ?s = "tween_tick e dt itw s"
  have tw: "tweens ?s = ?P @ ts @ Q" using u(1) by simp
  have "fst u = fst itw" using u(2) by (simp add: unstarted_def advanced_def)
  then have di: "distinct (map fst (?P @ ts @ Q))" using Cons.prems(2) by auto
  note ih = Cons.IH [OF tw di]
  have mem: "fst itw \<in> fst ` set (tweens s)" using Cons.prems(1) by simp
  from ih obtain ts' where ts': "tweens (fold (tween_tick e dt) ts ?s) = ?P @ ts' @ Q"
      "map unstarted ts' = map (advanced dt) (filter (\<lambda>itw. \<not> finishes dt itw) ts)"
    by blast
  have 1: "\<exists>ts'. tweens (fold (tween_tick e dt) (itw # ts) s) = P @ ts' @ Q
             \<and> map unstarted ts' = map (advanced dt) (filter (\<lambda>itw. \<not> finishes dt itw) (itw # ts))"
    by (rule exI [of _ "(if finishes dt itw then [] else [u]) @ ts'"])
      (use ts' u(2) in simp)
  have 2: "emitted (fold (tween_tick e dt) (itw # ts) s)
           = emitted s @ concat (map (fired (runtimeRef s)) (filter (finishes dt) (itw # ts)))"
    using ih mem by (simp add: tween_tick_emitted tween_tick_runtimeRef)
  have 3: "runtimeRef (fold (tween_tick e dt) (itw # ts) s) = runtimeRef s"
    using ih by (simp add: tween_tick_runtimeRef)
  have 4: "nextTween (fold (tween_tick e dt) (itw # ts) s) = nextTween s"
    using ih by (simp add: tween_tick_nextTween)
  from 1 2 3 4 show ?case by blast
qed

lemma gsap_tick_tweens:
  assumes "distinct (map fst (tweens s))"
  shows "map unstarted (tweens (gsap_tick e dt s))
           = map (advanced dt) (filter (\<lambda>itw. \<not> finishes dt itw) (tweens s))"
  using fold_tween_tick [of s "[]" "tweens s" "[]" e dt] assms
  by (auto simp: gsap_tick_def)

lemma gsap_tick_emitted:
  assumes "distinct (map fst (tweens s))"
  shows "emitted (gsap_tick e dt s)
           = emitted s @ concat (map (fired (runtimeRef s)) (filter (finishes dt) (tweens s)))"
  using fold_tween_tick [of s "[]" "tweens s" "[]" e dt] assms
  by (auto simp: gsap_tick_def)

lemma gsap_tick_runtimeRef:
  assumes "distinct (map fst (tweens s))"
  shows "runtimeRef (gsap_tick e dt s) = runtimeRef s"
    and "nextTween (gsap_tick e dt s) = nextTween s"
  using fold_tween_tick [of s "[]" "tweens s" "[]" e dt] assms
  by (auto simp: gsap_tick_def)

subsection \<open>What a tick writes\<close>

lemma read_write_target:
  "read_target g (write_target g' v s) = (if g = g' then v else read_target g s)"
  by (simp add: read_target_def write_target_def split: tween_target.splits)

lemma read_target_frame:
  "read_target g (s\<lparr>tweens := ts\<rparr>) = read_target g s"
  "read_target g (onComplete st s) = read_target g s"
  by (simp_all add: read_target_def onComplete_def emit_def split: tween_target.splits option.splits)

lemma read_onUpdate:
  "g \<noteq> CameraPosition \<or> tw_target tw \<noteq> ControlsTarget \<Longrightarrow>
   read_target g (onUpdate tw s) = read_target g s"
  by (auto simp: onUpdate_def read_target_def controls_update_frame split: tween_target.splits)

text \<open>A tween leaves alone what it does not target; only a tween of the orbit target, by its
  \<open>onUpdate\<close>, also moves the camera.\<close>

lemma tween_tick_read_other:
  "tw_target (snd itw) \<noteq> g \<Longrightarrow> g \<noteq> CameraPosition \<or> tw_target (snd itw) \<noteq> ControlsTarget \<Longrightarrow>
   read_target g (tween_tick e dt itw s) = read_target g s"
  by (simp add: tween_tick_def Let_def read_write_target read_target_frame read_onUpdate
      split: option.splits)

lemma tween_tick_read_done:
  "fst itw \<in> fst ` set (tweens s) \<Longrightarrow> finishes dt itw \<Longrightarrow>
   read_target (tw_target (snd itw)) (tween_tick e dt itw s) = tw_to (snd itw)"
  by (simp add: tween_tick_def Let_def read_write_target read_target_frame read_onUpdate
      finishes_def split: option.splits)

lemma fold_read_other:
  "\<forall>itw\<in>set ts. tw_target (snd itw) \<noteq> g
      \<and> (g \<noteq> CameraPosition \<or> tw_target (snd itw) \<noteq> ControlsTarget) \<Longrightarrow>
   read_target g (fold (tween_tick e dt) ts s) = read_target g s"
  by (induction ts arbitrary: s) (simp_all add: tween_tick_read_other)

lemma gsap_tick_read_none:
  "\<forall>itw\<in>set (tweens s). tw_target (snd itw) \<noteq> g
      \<and> (g \<noteq> CameraPosition \<or> tw_target (snd itw) \<noteq> ControlsTarget) \<Longrightarrow>
   read_target g (gsap_tick e dt s) = read_target g s"
  by (simp add: gsap_tick_def fold_read_other)

subsection \<open>Ticks keep the tweens owned\<close>

lemma unstarted_sel:
  "fst (unstarted itw) = fst itw"
  "tw_target (snd (unstarted itw)) = tw_target (snd itw)"
  "tw_onComplete (snd (unstarted itw)) = tw_onComplete (snd itw)"
  "tw_duration (snd (unstarted itw)) = tw_duration (snd itw)"
  "tw_time (snd (unstarted itw)) = tw_time (snd itw)"
  "tw_to (snd (unstarted itw)) = tw_to (snd itw)"
  by (simp_all add: unstarted_def)

lemma advanced_sel:
  "fst (advanced dt itw) = fst itw"
  "tw_target (snd (advanced dt itw)) = tw_target (snd itw)"
  "tw_onComplete (snd (advanced dt itw)) = tw_onComplete (snd itw)"
  "tw_duration (snd (advanced dt itw)) = tw_duration (snd itw)"
  "tw_time (snd (advanced dt itw)) = tw_time (snd itw) + dt"
  "tw_to (snd (advanced dt itw)) = tw_to (snd itw)"
  by (simp_all add: advanced_def)

lemma gsap_tick_ids:
  assumes "distinct (map fst (tweens s))"
  shows "map fst (tweens (gsap_tick e dt s))
           = map fst (filter (\<lambda>itw. \<not> finishes dt itw) (tweens s))"
proof -
  have "map fst (tweens (gsap_tick e dt s)) = map fst (map unstarted (tweens (gsap_tick e dt s)))"
    by (simp add: comp_def unstarted_sel)
  also have "\<dots> = map fst (map (advanced dt) (filter (\<lambda>itw. \<not> finishes dt itw) (tweens s)))"
    by (simp only: gsap_tick_tweens [OF assms])
  also have "\<dots> = map fst (filter (\<lambda>itw. \<not> finishes dt itw) (tweens s))"
    by (simp add: comp_def advanced_sel)
  finally show ?thesis .
qed

lemma gsap_tick_member:
  assumes "distinct (map fst (tweens s))" and "itw' \<in> set (tweens (gsap_tick e dt s))"
  shows "\<exists>itw\<in>set (tweens s). \<not> finishes dt itw \<and> unstarted itw' = advanced dt itw"
proof -
  have "unstarted itw' \<in> set (map unstarted (tweens (gsap_tick e dt s)))"
    using assms(2) by simp
  then have "unstarted itw' \<in> set (map (advanced dt) (filter (\<lambda>itw. \<not> finishes dt itw) (tweens s)))"
    by (simp only: gsap_tick_tweens [OF assms(1)])
  then show ?thesis by auto
qed

lemma gsap_tick_target:
  assumes "distinct (map fst (tweens s))"
  shows "map unstarted (filter (\<lambda>x. tw_target (snd x) = g) (tweens (gsap_tick e dt s)))
           = map (advanced dt)
               (filter (\<lambda>itw. \<not> finishes dt itw) (filter (\<lambda>x. tw_target (snd x) = g) (tweens s)))"
proof -
  have "map unstarted (filter (\<lambda>x. tw_target (snd x) = g) (tweens (gsap_tick e dt s)))
          = filter (\<lambda>x. tw_target (snd x) = g) (map unstarted (tweens (gsap_tick e dt s)))"
    by (simp add: filter_map comp_def unstarted_sel)
  also have "\<dots> = filter (\<lambda>x. tw_target (snd x) = g)
                      (map (advanced dt) (filter (\<lambda>itw. \<not> finishes dt itw) (tweens s)))"
    by (simp only: gsap_tick_tweens [OF assms])
  also have "\<dots> = map (advanced dt)
               (filter (\<lambda>x. tw_target (snd x) = g) (filter (\<lambda>itw. \<not> finishes dt itw) (tweens s)))"
    by (simp add: filter_map comp_def advanced_sel)
  also have "\<dots> = map (advanced dt)
               (filter (\<lambda>itw. \<not> finishes dt itw) (filter (\<lambda>x. tw_target (snd x) = g) (tweens s)))"
    by (simp add: conj_commute)
  finally show ?thesis .
qed

lemma owned_gsap_tick:
  assumes "owned s"
  shows "owned (gsap_tick e dt s)"
proof -
  from assms obtain runtime where rt: "runtimeRef s = Some runtime"
    and di: "distinct (map fst (tweens s))"
    and all: "\<forall>itw\<in>set (tweens s).
              fst itw < nextTween s
              \<and> tw_time (snd itw) < tw_duration (snd itw)
              \<and> (tw_target (snd itw) = CameraPosition \<longrightarrow> cameraTween runtime = Some (fst itw))
              \<and> (tw_target (snd itw) = ControlsTarget \<longrightarrow> targetTween runtime = Some (fst itw))
              \<and> (tw_onComplete (snd itw) \<noteq> None \<longrightarrow> tw_target (snd itw) = ControlsTarget)"
    and handles: "\<forall>i. cameraTween runtime = Some i \<or> targetTween runtime = Some i
                      \<longrightarrow> i < nextTween s"
    unfolding owned_def by blast
  let ?s = "gsap_tick e dt s"
  have rt': "runtimeRef ?s = Some runtime" "nextTween ?s = nextTween s"
    using gsap_tick_runtimeRef [OF di] rt by simp_all
  have di': "distinct (map fst (tweens ?s))"
    unfolding gsap_tick_ids [OF di] using di by (rule distinct_map_filter)
  have "fst itw' < nextTween ?s
        \<and> tw_time (snd itw') < tw_duration (snd itw')
        \<and> (tw_target (snd itw') = CameraPosition \<longrightarrow> cameraTween runtime = Some (fst itw'))
        \<and> (tw_target (snd itw') = ControlsTarget \<longrightarrow> targetTween runtime = Some (fst itw'))
        \<and> (tw_onComplete (snd itw') \<noteq> None \<longrightarrow> tw_target (snd itw') = ControlsTarget)"
    if "itw' \<in> set (tweens ?s)" for itw'
  proof -
    from gsap_tick_member [OF di that] obtain itw where itw: "itw \<in> set (tweens s)"
      "\<not> finishes dt itw" "unstarted itw' = advanced dt itw"
      by blast
    have sel: "fst itw' = fst itw" "tw_target (snd itw') = tw_target (snd itw)"
      "tw_onComplete (snd itw') = tw_onComplete (snd itw)"
      "tw_duration (snd itw') = tw_duration (snd itw)"
      "tw_time (snd itw') = tw_time (snd itw) + dt"
      using itw(3) unstarted_sel [of itw'] advanced_sel [of dt itw] by simp_all
    show ?thesis
      unfolding sel rt'(2) using all itw(1,2) by (auto simp: finishes_def)
  qed
  then show ?thesis unfolding owned_def using rt' di' handles by auto
qed

subsection \<open>A focus transition in flight\<close>

lemma fired_without_callback: "tw_onComplete (snd itw) = None \<Longrightarrow> fired r itw = []"
  by (simp add: fired_def)

lemma filter_single_split:
  assumes "filter P xs = [x]"
  shows "\<exists>A B. xs = A @ x # B \<and> (\<forall>a\<in>set A. \<not> P a) \<and> (\<forall>b\<in>set B. \<not> P b) \<and> P x"
proof -
  from filter_eq_ConsD [OF assms]
  obtain A B where ab: "xs = A @ x # B" "\<forall>a\<in>set A. \<not> P a" "P x" "filter P B = []"
    by auto
  then have "\<forall>b\<in>set B. \<not> P b" by (simp add: filter_empty_conv)
  with ab show ?thesis by blast
qed

lemma settled_tick:
  assumes "settled s"
  shows "settled (gsap_tick e dt s) \<and> emitted (gsap_tick e dt s) = emitted s"
proof -
  from assms have ow: "owned s" and no: "\<forall>itw\<in>set (tweens s). tw_target (snd itw) \<noteq> ControlsTarget"
    unfolding settled_def by simp_all
  from ow have di: "distinct (map fst (tweens s))"
    and cb: "\<forall>itw\<in>set (tweens s). tw_onComplete (snd itw) \<noteq> None \<longrightarrow> tw_target (snd itw) = ControlsTarget"
    unfolding owned_def by blast+
  have "\<forall>itw\<in>set (filter (finishes dt) (tweens s)). fired (runtimeRef s) itw = []"
  proof
    fix x
    assume "x \<in> set (filter (finishes dt) (tweens s))"
    then have x: "x \<in> set (tweens s)" by simp
    then have "tw_target (snd x) \<noteq> ControlsTarget" using no by simp
    with x cb have "tw_onComplete (snd x) = None" by auto
    then show "fired (runtimeRef s) x = []" by (rule fired_without_callback)
  qed
  then have "concat (map (fired (runtimeRef s)) (filter (finishes dt) (tweens s))) = []"
    by simp
  then have em: "emitted (gsap_tick e dt s) = emitted s"
    using gsap_tick_emitted [OF di] by simp
  have "tw_target (snd itw') \<noteq> ControlsTarget" if "itw' \<in> set (tweens (gsap_tick e dt s))" for itw'
  proof -
    from gsap_tick_member [OF di that] obtain itw where "itw \<in> set (tweens s)"
      "unstarted itw' = advanced dt itw" by blast
    then show ?thesis using no unstarted_sel(2) [of itw'] advanced_sel(2) [of dt itw] by auto
  qed
  then show ?thesis using owned_gsap_tick [OF ow] em unfolding settled_def by blast
qed

lemma in_flight_tick:
  assumes "in_flight X t s"
  shows "(t + dt < FOCUS_DURATION \<longrightarrow>
            in_flight X (t + dt) (gsap_tick e dt s) \<and> emitted (gsap_tick e dt s) = emitted s)
       \<and> (FOCUS_DURATION \<le> t + dt \<longrightarrow>
            settled (gsap_tick e dt s)
            \<and> emitted (gsap_tick e dt s) = emitted s @ [OnFocusComplete X])"
proof -
  from assms obtain runtime itw where ow: "owned s" and rt: "runtimeRef s = Some runtime"
    and pend: "pendingFocusId runtime = Some (site_id X)"
    and one: "filter (\<lambda>x. tw_target (snd x) = ControlsTarget) (tweens s) = [itw]"
    and itw: "tw_onComplete (snd itw) = Some X" "tw_duration (snd itw) = FOCUS_DURATION"
      "tw_time (snd itw) = t"
    unfolding in_flight_def by blast
  from ow have di: "distinct (map fst (tweens s))"
    and cb: "\<forall>x\<in>set (tweens s). tw_onComplete (snd x) \<noteq> None \<longrightarrow> tw_target (snd x) = ControlsTarget"
    unfolding owned_def by blast+
  from filter_single_split [OF one] obtain A B where ab: "tweens s = A @ itw # B"
    "\<forall>a\<in>set A. tw_target (snd a) \<noteq> ControlsTarget"
    "\<forall>b\<in>set B. tw_target (snd b) \<noteq> ControlsTarget"
    by blast
  have quiet: "\<forall>x\<in>set (A @ B). fired (runtimeRef s) x = []"
  proof
    fix x
    assume "x \<in> set (A @ B)"
    then have x: "x \<in> set (tweens s)" "tw_target (snd x) \<noteq> ControlsTarget"
      using ab by auto
    with cb have "tw_onComplete (snd x) = None" by auto
    then show "fired (runtimeRef s) x = []" by (rule fired_without_callback)
  qed
  have fire: "fired (runtimeRef s) itw = [OnFocusComplete X]"
    using rt pend itw(1) by (simp add: fired_def)
  have fin: "finishes dt itw \<longleftrightarrow> FOCUS_DURATION \<le> t + dt"
    using itw by (simp add: finishes_def)
  have qa: "concat (map (fired (runtimeRef s)) (filter (finishes dt) A)) = []"
    and qb: "concat (map (fired (runtimeRef s)) (filter (finishes dt) B)) = []"
    using quiet by simp_all
  have "concat (map (fired (runtimeRef s)) (filter (finishes dt) (A @ itw # B)))
          = concat (map (fired (runtimeRef s)) (filter (finishes dt) A))
            @ (if finishes dt itw then fired (runtimeRef s) itw else [])
            @ concat (map (fired (runtimeRef s)) (filter (finishes dt) B))"
    by simp
  also have "\<dots> = (if FOCUS_DURATION \<le> t + dt then [OnFocusComplete X] else [])"
    unfolding qa qb fire fin by simp
  finally have em: "emitted (gsap_tick e dt s)
              = emitted s @ (if FOCUS_DURATION \<le> t + dt then [OnFocusComplete X] else [])"
    unfolding gsap_tick_emitted [OF di] ab(1) by simp
  let ?s = "gsap_tick e dt s"
  have ow': "owned ?s" by (rule owned_gsap_tick [OF ow])
  have rt': "runtimeRef ?s = Some runtime" using gsap_tick_runtimeRef(1) [OF di] rt by simp
  have tg: "map unstarted (filter (\<lambda>x. tw_target (snd x) = ControlsTarget) (tweens ?s))
              = map (advanced dt) (filter (\<lambda>x. \<not> finishes dt x) [itw])"
    using gsap_tick_target [OF di, of ControlsTarget e dt] one by simp
  have early: "in_flight X (t + dt) ?s" if "t + dt < FOCUS_DURATION"
  proof -
    from that fin tg
    have "map unstarted (filter (\<lambda>x. tw_target (snd x) = ControlsTarget) (tweens ?s))
            = [advanced dt itw]" by simp
    then obtain itw' where i': "filter (\<lambda>x. tw_target (snd x) = ControlsTarget) (tweens ?s) = [itw']"
      "unstarted itw' = advanced dt itw"
      by (auto simp: map_eq_Cons_conv)
    have "tw_onComplete (snd itw') = Some X" "tw_duration (snd itw') = FOCUS_DURATION"
      "tw_time (snd itw') = t + dt"
      using i'(2) unstarted_sel [of itw'] advanced_sel [of dt itw] itw by simp_all
    then show ?thesis unfolding in_flight_def using ow' rt' pend i'(1) by blast
  qed
  have late: "settled ?s" if "FOCUS_DURATION \<le> t + dt"
  proof -
    from that fin tg
    have "filter (\<lambda>x. tw_target (snd x) = ControlsTarget) (tweens ?s) = []" by simp
    then show ?thesis unfolding settled_def using ow' by (simp add: filter_empty_conv)
  qed
  show ?thesis using early late em by auto
qed

lemma in_flight_time: "in_flight X t s \<Longrightarrow> t < FOCUS_DURATION"
proof -
  assume a: "in_flight X t s"
  then obtain itw where one: "filter (\<lambda>x. tw_target (snd x) = ControlsTarget) (tweens s) = [itw]"
    and itw: "tw_duration (snd itw) = FOCUS_DURATION" "tw_time (snd itw) = t"
    unfolding in_flight_def by blast
  have "itw \<in> set (filter (\<lambda>x. tw_target (snd x) = ControlsTarget) (tweens s))"
    unfolding one by simp
  then have "itw \<in> set (tweens s)" by simp
  moreover from a have "owned s" unfolding in_flight_def by simp
  ultimately have "tw_time (snd itw) < tw_duration (snd itw)" unfolding owned_def by blast
  then show ?thesis using itw by simp
qed

subsection \<open>Starting a transition\<close>

lemma kill_frame:
  "runtimeRef (kill h s) = runtimeRef s"
  "nextTween (kill h s) = nextTween s"
  "emitted (kill h s) = emitted s"
  "currentHovered (kill h s) = currentHovered s"
  "cameraPosition (kill h s) = cameraPosition s"
  "controlsTarget (kill h s) = controlsTarget s"
  "pointerClient (kill h s) = pointerClient s"
  by (simp_all add: kill_def split: option.splits)

lemma kill_tweens:
  "set (tweens (kill h s)) = {itw \<in> set (tweens s). h \<noteq> Some (fst itw)}"
  "distinct (map fst (tweens s)) \<Longrightarrow> distinct (map fst (tweens (kill h s)))"
  by (auto simp: kill_def distinct_map_filter split: option.splits)

lemma kill_scale_only:
  assumes "owned s" and "runtimeRef s = Some runtime"
  shows "scale_only (kill (targetTween runtime) (kill (cameraTween runtime) s))"
proof -
  let ?s = "kill (targetTween runtime) (kill (cameraTween runtime) s)"
  from assms have di: "distinct (map fst (tweens s))"
    and all: "\<forall>itw\<in>set (tweens s).
              fst itw < nextTween s
              \<and> tw_time (snd itw) < tw_duration (snd itw)
              \<and> (tw_target (snd itw) = CameraPosition \<longrightarrow> cameraTween runtime = Some (fst itw))
              \<and> (tw_target (snd itw) = ControlsTarget \<longrightarrow> targetTween runtime = Some (fst itw))
              \<and> (tw_onComplete (snd itw) \<noteq> None \<longrightarrow> tw_target (snd itw) = ControlsTarget)"
    unfolding owned_def by auto
  have mem: "set (tweens ?s) = {itw \<in> set (tweens s). cameraTween runtime \<noteq> Some (fst itw)
                                   \<and> targetTween runtime \<noteq> Some (fst itw)}"
    by (auto simp: kill_tweens(1))
  have "distinct (map fst (tweens ?s))" by (intro kill_tweens(2) di)
  moreover have "fst itw < nextTween ?s
           \<and> tw_time (snd itw) < tw_duration (snd itw)
           \<and> tw_onComplete (snd itw) = None
           \<and> tw_target (snd itw) \<noteq> CameraPosition
           \<and> tw_target (snd itw) \<noteq> ControlsTarget" if "itw \<in> set (tweens ?s)" for itw
  proof -
    from that have i: "itw \<in> set (tweens s)" "cameraTween runtime \<noteq> Some (fst itw)"
      "targetTween runtime \<noteq> Some (fst itw)"
      unfolding mem by simp_all
    from all i(1) have a: "fst itw < nextTween s" "tw_time (snd itw) < tw_duration (snd itw)"
      "tw_target (snd itw) = CameraPosition \<longrightarrow> cameraTween runtime = Some (fst itw)"
      "tw_target (snd itw) = ControlsTarget \<longrightarrow> targetTween runtime = Some (fst itw)"
      "tw_onComplete (snd itw) \<noteq> None \<longrightarrow> tw_target (snd itw) = ControlsTarget"
      by simp_all
    from a(3) i(2) have c: "tw_target (snd itw) \<noteq> CameraPosition" by auto
    from a(4) i(3) have t: "tw_target (snd itw) \<noteq> ControlsTarget" by auto
    from a(5) t have "tw_onComplete (snd itw) = None" by auto
    with a(1,2) c t show ?thesis by (simp add: kill_frame)
  qed
  ultimately show ?thesis unfolding scale_only_def by blast
qed

lemma scale_only_cong:
  "tweens s' = tweens s \<Longrightarrow> nextTween s' = nextTween s \<Longrightarrow> scale_only s' = scale_only s"
  by (simp add: scale_only_def)

lemma gsap_to_scale_only:
  assumes "scale_only s" and "0 < d"
  shows "scale_only (snd (gsap_to (MeshScale m) v d e ow None s))"
    and "nextTween s \<le> nextTween (snd (gsap_to (MeshScale m) v d e ow None s))"
proof -
  let ?kept = "if ow then filter (\<lambda>(j, tw). tw_target tw \<noteq> MeshScale m) (tweens s) else tweens s"
  let ?tw = "\<lparr>tw_target = MeshScale m, tw_to = v, tw_duration = d, tw_ease = e,
              tw_onComplete = None, tw_time = 0, tw_start = None\<rparr>"
  have tw: "tweens (snd (gsap_to (MeshScale m) v d e ow None s)) = ?kept @ [(nextTween s, ?tw)]"
    and nx: "nextTween (snd (gsap_to (MeshScale m) v d e ow None s)) = nextTween s + 1"
    by (simp_all add: gsap_to_def Let_def)
  from assms(1) have di: "distinct (map fst (tweens s))"
    and all: "\<forall>itw\<in>set (tweens s).
           fst itw < nextTween s
           \<and> tw_time (snd itw) < tw_duration (snd itw)
           \<and> tw_onComplete (snd itw) = None
           \<and> tw_target (snd itw) \<noteq> CameraPosition
           \<and> tw_target (snd itw) \<noteq> ControlsTarget"
    unfolding scale_only_def by simp_all
  have sub: "set ?kept \<subseteq> set (tweens s)" by auto
  have dk: "distinct (map fst ?kept)" using di by (simp add: distinct_map_filter)
  have fresh: "nextTween s \<notin> fst ` set ?kept" using sub all by fastforce
  show "scale_only (snd (gsap_to (MeshScale m) v d e ow None s))"
    unfolding scale_only_def tw nx using dk fresh sub all assms(2)
    by (auto simp: less_Suc_eq)
  show "nextTween s \<le> nextTween (snd (gsap_to (MeshScale m) v d e ow None s))"
    unfolding nx by simp
qed

lemma gsap_to_frame:
  "runtimeRef (snd (gsap_to g v d e ow oc s)) = runtimeRef s"
  "emitted (snd (gsap_to g v d e ow oc s)) = emitted s"
  "currentHovered (snd (gsap_to g v d e ow oc s)) = currentHovered s"
  "cameraPosition (snd (gsap_to g v d e ow oc s)) = cameraPosition s"
  "controlsTarget (snd (gsap_to g v d e ow oc s)) = controlsTarget s"
  "pointerClient (snd (gsap_to g v d e ow oc s)) = pointerClient s"
  by (simp_all add: gsap_to_def Let_def)

lemma setHovered_scale_only:
  assumes "scale_only s"
  shows "scale_only (setHovered h s) \<and> nextTween s \<le> nextTween (setHovered h s)"
proof (cases "currentHovered s = h")
  case True
  then show ?thesis using assms by (simp add: setHovered_def)
next
  case False
  let ?s1 = "case currentHovered s of
               None \<Rightarrow> s
             | Some m \<Rightarrow> snd (gsap_to (MeshScale (mesh_ref m)) (Vector3 1 1 1) 0.25
                                DefaultEase True None s)"
  have q: "(0::real) < 0.25" by simp
  have s1: "scale_only ?s1 \<and> nextTween s \<le> nextTween ?s1"
    using assms gsap_to_scale_only [OF assms q] by (simp split: option.splits)
  let ?s2 = "?s1\<lparr>currentHovered := h\<rparr>"
  have s2: "scale_only ?s2" "nextTween ?s2 = nextTween ?s1"
    using s1 scale_only_cong [of ?s2 ?s1] by simp_all
  show ?thesis
  proof (cases h)
    case None
    have "setHovered h s
            = emit (OnHoverChange \<lparr>hover_site = None, hover_x = 0, hover_y = 0\<rparr>)
                (?s2\<lparr>cursor := ''default''\<rparr>)"
      using False None by (auto simp: setHovered_def Let_def split: option.splits)
    moreover have "tweens (emit (OnHoverChange \<lparr>hover_site = None, hover_x = 0, hover_y = 0\<rparr>)
                (?s2\<lparr>cursor := ''default''\<rparr>)) = tweens ?s2"
      "nextTween (emit (OnHoverChange \<lparr>hover_site = None, hover_x = 0, hover_y = 0\<rparr>)
                (?s2\<lparr>cursor := ''default''\<rparr>)) = nextTween ?s2"
      by (simp_all add: emit_def)
    ultimately show ?thesis using s1 s2 scale_only_cong by metis
  next
    case (Some m)
    let ?g = "gsap_to (MeshScale (mesh_ref m)) (Vector3 1.45 1.45 1.45) 0.25 DefaultEase True None ?s2"
    let ?s4 = "(snd ?g)\<lparr>cursor := ''pointer''\<rparr>"
    let ?ev = "OnHoverChange \<lparr>hover_site = Some (userData_site m),
                               hover_x = fst (pointerClient ?s4), hover_y = snd (pointerClient ?s4)\<rparr>"
    have eq: "setHovered h s = emit ?ev ?s4"
      using False Some by (auto simp: setHovered_def Let_def split: option.splits)
    have g: "scale_only (snd ?g)" "nextTween ?s2 \<le> nextTween (snd ?g)"
      using gsap_to_scale_only [OF s2(1) q] by simp_all
    have "tweens (emit ?ev ?s4) = tweens (snd ?g)" "nextTween (emit ?ev ?s4) = nextTween (snd ?g)"
      by (simp_all add: emit_def)
    then have "scale_only (emit ?ev ?s4)" "nextTween (emit ?ev ?s4) = nextTween (snd ?g)"
      using g(1) scale_only_cong by metis+
    then show ?thesis unfolding eq using g(2) s1 s2(2) by linarith
  qed
qed

lemma focus_completions_append:
  "focus_completions (es @ fs) = focus_completions es @ focus_completions fs"
  by (induction es rule: focus_completions.induct) simp_all

lemma setHovered_extends:
  "\<exists>es. emitted (setHovered h s) = emitted s @ es \<and> focus_completions es = []"
proof (cases "currentHovered s = h")
  case True
  then show ?thesis by (simp add: setHovered_same)
next
  case False
  then show ?thesis by (simp add: setHovered_emitted)
qed

lemma setHovered_runtimeRef: "runtimeRef (setHovered h s) = runtimeRef s"
  by (rule setHovered_keeps_disturbance)

lemma focus_effect_site:
  assumes "runtimeRef s = Some runtime"
  shows "\<exists>s4 focusTarget destination.
     focus_effect (Some fs) gw s =
       Some (s4\<lparr>tweens := tweens s4 @
                 [(nextTween s4,
                   \<lparr>tw_target = CameraPosition, tw_to = destination, tw_duration = FOCUS_DURATION,
                    tw_ease = ExpoInOut, tw_onComplete = None, tw_time = 0, tw_start = None\<rparr>),
                  (nextTween s4 + 1,
                   \<lparr>tw_target = ControlsTarget, tw_to = focusTarget, tw_duration = FOCUS_DURATION,
                    tw_ease = ExpoInOut, tw_onComplete = Some fs, tw_time = 0, tw_start = None\<rparr>)],
               nextTween := nextTween s4 + 2,
               runtimeRef := Some (runtime\<lparr>pendingFocusId := Some (site_id fs), focusLocked := True,
                                            cameraTween := Some (nextTween s4),
                                            targetTween := Some (nextTween s4 + 1)\<rparr>)\<rparr>)
     \<and> s4 = (setHovered None
              (update_runtime (\<lambda>r. r\<lparr>pendingFocusId := Some (site_id fs), focusLocked := True\<rparr>)
                 (kill (targetTween runtime) (kill (cameraTween runtime) s))))
            \<lparr>controlsEnabled := False\<rparr>
     \<and> focusTarget = (case nodeMeshById runtime (site_id fs) of
                        None \<Rightarrow> position fs | Some targetNode \<Rightarrow> gw targetNode)
     \<and> destination =
         addScaledVector focusTarget
           (if lengthSq (sub_v (cameraPosition s4) focusTarget) < 0.0001 then Vector3 0 0 1
            else multiplyScalar (sub_v (cameraPosition s4) focusTarget)
                   (1 / length_v (sub_v (cameraPosition s4) focusTarget)))
           FOCUS_DISTANCE"
proof -
  let ?s2 = "update_runtime (\<lambda>r. r\<lparr>pendingFocusId := Some (site_id fs), focusLocked := True\<rparr>)
                 (kill (targetTween runtime) (kill (cameraTween runtime) s))"
  have r2: "runtimeRef (setHovered None ?s2)
              = Some (runtime\<lparr>pendingFocusId := Some (site_id fs), focusLocked := True\<rparr>)"
    by (simp add: setHovered_runtimeRef update_runtime_def kill_frame assms)
  show ?thesis
    by (simp add: focus_effect_def assms Let_def approachDirection_eq gsap_to_def
        update_runtime_def [of _ "_\<lparr>tweens := _, nextTween := _\<rparr>"] r2)
qed

lemma update_runtime_frame:
  "tweens (update_runtime f s) = tweens s"
  "nextTween (update_runtime f s) = nextTween s"
  "emitted (update_runtime f s) = emitted s"
  by (simp_all add: update_runtime_def)

lemma prepared_scale_only:
  assumes "owned s" and "runtimeRef s = Some runtime"
  shows "scale_only ((setHovered h (update_runtime f
                       (kill (targetTween runtime) (kill (cameraTween runtime) s))))
                     \<lparr>controlsEnabled := b\<rparr>)"
    and "nextTween s \<le> nextTween ((setHovered h (update_runtime f
                       (kill (targetTween runtime) (kill (cameraTween runtime) s))))
                     \<lparr>controlsEnabled := b\<rparr>)"
    and "\<exists>es. emitted ((setHovered h (update_runtime f
                       (kill (targetTween runtime) (kill (cameraTween runtime) s))))
                     \<lparr>controlsEnabled := b\<rparr>) = emitted s @ es \<and> focus_completions es = []"
proof -
  let ?s1 = "kill (targetTween runtime) (kill (cameraTween runtime) s)"
  let ?s2 = "update_runtime f ?s1"
  have "scale_only ?s1" by (rule kill_scale_only [OF assms])
  then have 2: "scale_only ?s2"
    using scale_only_cong [of ?s2 ?s1] by (simp add: update_runtime_frame)
  have n2: "nextTween ?s2 = nextTween s" by (simp add: update_runtime_frame kill_frame)
  from setHovered_scale_only [OF 2, of h]
  have 3: "scale_only (setHovered h ?s2)" "nextTween s \<le> nextTween (setHovered h ?s2)"
    using n2 by simp_all
  show "scale_only ((setHovered h ?s2)\<lparr>controlsEnabled := b\<rparr>)"
    using 3(1) scale_only_cong [of "(setHovered h ?s2)\<lparr>controlsEnabled := b\<rparr>" "setHovered h ?s2"]
    by simp
  show "nextTween s \<le> nextTween ((setHovered h ?s2)\<lparr>controlsEnabled := b\<rparr>)"
    using 3(2) by simp
  show "\<exists>es. emitted ((setHovered h ?s2)\<lparr>controlsEnabled := b\<rparr>) = emitted s @ es
              \<and> focus_completions es = []"
    using setHovered_extends [of h ?s2] by (simp add: update_runtime_frame kill_frame)
qed

lemma focus_effect_in_flight:
  assumes "owned s"
  shows "\<exists>s' es. focus_effect (Some fs) gw s = Some s' \<and> in_flight fs 0 s'
              \<and> emitted s' = emitted s @ es \<and> focus_completions es = []"
proof -
  from assms obtain runtime where rt: "runtimeRef s = Some runtime"
    unfolding owned_def by blast
  from focus_effect_site [OF rt, of fs gw] obtain s4 focusTarget destination where
    eq: "focus_effect (Some fs) gw s =
       Some (s4\<lparr>tweens := tweens s4 @
                 [(nextTween s4,
                   \<lparr>tw_target = CameraPosition, tw_to = destination, tw_duration = FOCUS_DURATION,
                    tw_ease = ExpoInOut, tw_onComplete = None, tw_time = 0, tw_start = None\<rparr>),
                  (nextTween s4 + 1,
                   \<lparr>tw_target = ControlsTarget, tw_to = focusTarget, tw_duration = FOCUS_DURATION,
                    tw_ease = ExpoInOut, tw_onComplete = Some fs, tw_time = 0, tw_start = None\<rparr>)],
               nextTween := nextTween s4 + 2,
               runtimeRef := Some (runtime\<lparr>pendingFocusId := Some (site_id fs), focusLocked := True,
                                            cameraTween := Some (nextTween s4),
                                            targetTween := Some (nextTween s4 + 1)\<rparr>)\<rparr>)"
    and s4: "s4 = (setHovered None
              (update_runtime (\<lambda>r. r\<lparr>pendingFocusId := Some (site_id fs), focusLocked := True\<rparr>)
                 (kill (targetTween runtime) (kill (cameraTween runtime) s))))
            \<lparr>controlsEnabled := False\<rparr>"
    by blast
  have so: "scale_only s4"
    and "\<exists>es. emitted s4 = emitted s @ es \<and> focus_completions es = []"
    unfolding s4 by (rule prepared_scale_only [OF assms rt])+
  then obtain es where fc: "emitted s4 = emitted s @ es" "focus_completions es = []"
    by blast
  from so have di: "distinct (map fst (tweens s4))"
    and all: "\<forall>itw\<in>set (tweens s4).
           fst itw < nextTween s4
           \<and> tw_time (snd itw) < tw_duration (snd itw)
           \<and> tw_onComplete (snd itw) = None
           \<and> tw_target (snd itw) \<noteq> CameraPosition
           \<and> tw_target (snd itw) \<noteq> ControlsTarget"
    unfolding scale_only_def by simp_all
  let ?cam = "\<lparr>tw_target = CameraPosition, tw_to = destination, tw_duration = FOCUS_DURATION,
                tw_ease = ExpoInOut, tw_onComplete = None, tw_time = 0, tw_start = None\<rparr>"
  let ?tgt = "\<lparr>tw_target = ControlsTarget, tw_to = focusTarget, tw_duration = FOCUS_DURATION,
                tw_ease = ExpoInOut, tw_onComplete = Some fs, tw_time = 0, tw_start = None\<rparr>"
  let ?rt = "runtime\<lparr>pendingFocusId := Some (site_id fs), focusLocked := True,
                      cameraTween := Some (nextTween s4), targetTween := Some (nextTween s4 + 1)\<rparr>"
  let ?s' = "s4\<lparr>tweens := tweens s4 @ [(nextTween s4, ?cam), (nextTween s4 + 1, ?tgt)],
               nextTween := nextTween s4 + 2, runtimeRef := Some ?rt\<rparr>"
  have fresh: "nextTween s4 \<notin> fst ` set (tweens s4)" "Suc (nextTween s4) \<notin> fst ` set (tweens s4)"
    using all by fastforce+
  have ow: "owned ?s'"
    unfolding owned_def using di all fresh
    by (auto simp: FOCUS_DURATION_def less_Suc_eq)
  have "filter (\<lambda>x. tw_target (snd x) = ControlsTarget) (tweens s4) = []"
    using all by (simp add: filter_empty_conv)
  then have one: "filter (\<lambda>x. tw_target (snd x) = ControlsTarget) (tweens ?s')
                    = [(nextTween s4 + 1, ?tgt)]"
    by simp
  have "in_flight fs 0 ?s'"
    unfolding in_flight_def using ow one by simp
  moreover have "emitted ?s' = emitted s @ es"
    using fc by simp
  ultimately show ?thesis unfolding eq using fc(2) by blast
qed

lemma run_append:
  "run e (xs @ ys) s = (case run e xs s of None \<Rightarrow> None | Some s' \<Rightarrow> run e ys s')"
  by (induction xs arbitrary: s) (simp_all split: option.splits)

lemma in_flight_callbacks:
  assumes "in_flight X t s"
  shows "\<forall>itw\<in>set (tweens s). tw_onComplete (snd itw) \<noteq> None
            \<longrightarrow> tw_onComplete (snd itw) = Some X"
proof (intro ballI impI)
  fix itw
  assume m: "itw \<in> set (tweens s)" and c: "tw_onComplete (snd itw) \<noteq> None"
  from assms obtain one where ow: "owned s"
    and one: "filter (\<lambda>x. tw_target (snd x) = ControlsTarget) (tweens s) = [one]"
      "tw_onComplete (snd one) = Some X"
    unfolding in_flight_def by blast
  from ow m c have "tw_target (snd itw) = ControlsTarget" unfolding owned_def by blast
  with m have "itw \<in> set (filter (\<lambda>x. tw_target (snd x) = ControlsTarget) (tweens s))"
    by simp
  then have "itw = one" unfolding one(1) by simp
  then show "tw_onComplete (snd itw) = Some X" using one(2) by simp
qed

lemma onComplete_guard:
  assumes "in_flight X t s" and "site_id Y \<noteq> site_id X"
  shows "onComplete Y s = s"
  using assms by (auto simp: in_flight_def onComplete_def)

subsection \<open>The return to the base pose\<close>

lemma distinct_gsap_tick:
  "distinct (map fst (tweens s)) \<Longrightarrow> distinct (map fst (tweens (gsap_tick e dt s)))"
  unfolding gsap_tick_ids by (rule distinct_map_filter)

text \<open>At the base pose the camera is 40 from the origin, inside the distance limits, so
  \<open>controls.update()\<close> leaves it there.\<close>

lemma controls_update_home:
  assumes "cameraPosition s = BASE_CAMERA_POSITION" and "controlsTarget s = Vector3 0 0 0"
  shows "cameraPosition (controls_update s) = BASE_CAMERA_POSITION"
proof -
  have "sqrt 1600 = 40" by (rule real_sqrt_unique) simp_all
  then show ?thesis
    using assms
    by (simp add: controls_update_def Let_def BASE_CAMERA_POSITION_def sub_v_def length_v_def
        lengthSq_def vx_def vy_def vz_def minDistance_def maxDistance_def addScaledVector_def add_v_def
        multiplyScalar_def)
qed

lemma tween_tick_home:
  assumes "fst itw \<in> fst ` set (tweens s)"
    and "tw_target (snd itw) = CameraPosition
           \<longrightarrow> finishes dt itw \<and> tw_to (snd itw) = BASE_CAMERA_POSITION"
    and "tw_target (snd itw) = ControlsTarget
           \<longrightarrow> finishes dt itw \<and> tw_to (snd itw) = Vector3 0 0 0"
  shows "(tw_target (snd itw) = CameraPosition \<or> cameraPosition s = BASE_CAMERA_POSITION
            \<longrightarrow> cameraPosition (tween_tick e dt itw s) = BASE_CAMERA_POSITION)
       \<and> (tw_target (snd itw) = ControlsTarget \<or> controlsTarget s = Vector3 0 0 0
            \<longrightarrow> controlsTarget (tween_tick e dt itw s) = Vector3 0 0 0)"
proof (cases "tw_target (snd itw)")
  case CameraPosition
  then have "read_target CameraPosition (tween_tick e dt itw s) = BASE_CAMERA_POSITION"
    using tween_tick_read_done [OF assms(1), of dt e] assms(2) by simp
  moreover have "read_target ControlsTarget (tween_tick e dt itw s) = read_target ControlsTarget s"
    using CameraPosition by (intro tween_tick_read_other) simp_all
  ultimately show ?thesis using CameraPosition by (simp add: read_target_def)
next
  case ControlsTarget
  then have fin: "finishes dt itw" and to: "tw_to (snd itw) = Vector3 0 0 0"
    using assms(3) by simp_all
  have t: "read_target ControlsTarget (tween_tick e dt itw s) = Vector3 0 0 0"
    using tween_tick_read_done [OF assms(1) fin, of e] ControlsTarget to by simp
  have c: "cameraPosition (tween_tick e dt itw s) = BASE_CAMERA_POSITION"
    if "cameraPosition s = BASE_CAMERA_POSITION"
  proof -
    let ?w = "write_target ControlsTarget (Vector3 0 0 0) s"
    have "cameraPosition ?w = BASE_CAMERA_POSITION" "controlsTarget ?w = Vector3 0 0 0"
      using that by (simp_all add: write_target_def)
    from controls_update_home [OF this] show ?thesis
      using fin assms(1) ControlsTarget to
      by (simp add: tween_tick_def Let_def finishes_def onUpdate_def onComplete_def emit_def
          split: option.splits)
  qed
  show ?thesis using t c ControlsTarget by (simp add: read_target_def)
next
  case (MeshScale m)
  then have "read_target CameraPosition (tween_tick e dt itw s) = read_target CameraPosition s"
    "read_target ControlsTarget (tween_tick e dt itw s) = read_target ControlsTarget s"
    by (simp_all add: tween_tick_read_other)
  then show ?thesis using MeshScale by (simp add: read_target_def)
qed

lemma fold_home:
  assumes "tweens s = P @ ts @ Q" and "distinct (map fst (P @ ts @ Q))"
    and "\<forall>itw\<in>set ts.
           (tw_target (snd itw) = CameraPosition
              \<longrightarrow> finishes dt itw \<and> tw_to (snd itw) = BASE_CAMERA_POSITION)
         \<and> (tw_target (snd itw) = ControlsTarget
              \<longrightarrow> finishes dt itw \<and> tw_to (snd itw) = Vector3 0 0 0)"
    and "(\<exists>itw\<in>set ts. tw_target (snd itw) = CameraPosition)
           \<or> cameraPosition s = BASE_CAMERA_POSITION"
    and "(\<exists>itw\<in>set ts. tw_target (snd itw) = ControlsTarget)
           \<or> controlsTarget s = Vector3 0 0 0"
  shows "cameraPosition (fold (tween_tick e dt) ts s) = BASE_CAMERA_POSITION
       \<and> controlsTarget (fold (tween_tick e dt) ts s) = Vector3 0 0 0"
  using assms
proof (induction ts arbitrary: s P)
  case Nil
  then show ?case by simp
next
  case (Cons itw ts)
  have p: "tweens s = P @ itw # (ts @ Q)" "distinct (map fst (P @ itw # (ts @ Q)))"
    using Cons.prems by simp_all
  obtain u where u:
    "tweens (tween_tick e dt itw s) = P @ (if finishes dt itw then [] else [u]) @ (ts @ Q)"
    "unstarted u = advanced dt itw"
    using tween_tick_tweens [OF p] by blast
  let ?P = "P @ (if finishes dt itw then [] else [u])"
  let ?s = "tween_tick e dt itw s"
  have tw: "tweens ?s = ?P @ ts @ Q" using u(1) by simp
  have "fst u = fst itw" using u(2) by (simp add: unstarted_def advanced_def)
  then have di: "distinct (map fst (?P @ ts @ Q))" using Cons.prems(2) by auto
  have mem: "fst itw \<in> fst ` set (tweens s)" using Cons.prems(1) by simp
  have a: "tw_target (snd itw) = CameraPosition
             \<longrightarrow> finishes dt itw \<and> tw_to (snd itw) = BASE_CAMERA_POSITION"
    and b: "tw_target (snd itw) = ControlsTarget
             \<longrightarrow> finishes dt itw \<and> tw_to (snd itw) = Vector3 0 0 0"
    and rest: "\<forall>itw\<in>set ts.
           (tw_target (snd itw) = CameraPosition
              \<longrightarrow> finishes dt itw \<and> tw_to (snd itw) = BASE_CAMERA_POSITION)
         \<and> (tw_target (snd itw) = ControlsTarget
              \<longrightarrow> finishes dt itw \<and> tw_to (snd itw) = Vector3 0 0 0)"
    using Cons.prems(3) by simp_all
  note step = tween_tick_home [OF mem a b, of e]
  have 1: "(\<exists>itw\<in>set ts. tw_target (snd itw) = CameraPosition)
             \<or> cameraPosition ?s = BASE_CAMERA_POSITION"
    using Cons.prems(4) step by auto
  have 2: "(\<exists>itw\<in>set ts. tw_target (snd itw) = ControlsTarget)
             \<or> controlsTarget ?s = Vector3 0 0 0"
    using Cons.prems(5) step by auto
  from Cons.IH [OF tw di rest 1 2] show ?case by simp
qed

lemma home_tick:
  assumes "home s"
  shows "home (gsap_tick e dt s)"
proof -
  from assms have di: "distinct (map fst (tweens s))"
    and nc: "filter (\<lambda>x. tw_target (snd x) = CameraPosition) (tweens s) = []"
    and nt: "filter (\<lambda>x. tw_target (snd x) = ControlsTarget) (tweens s) = []"
    and at: "cameraPosition s = BASE_CAMERA_POSITION" "controlsTarget s = Vector3 0 0 0"
    unfolding home_def by simp_all
  have no: "\<forall>itw\<in>set (tweens s). tw_target (snd itw) \<noteq> CameraPosition
                                  \<and> tw_target (snd itw) \<noteq> ControlsTarget"
    using nc nt by (simp add: filter_empty_conv)
  have "read_target CameraPosition (gsap_tick e dt s) = read_target CameraPosition s"
    using no by (intro gsap_tick_read_none) simp
  moreover have "read_target ControlsTarget (gsap_tick e dt s) = read_target ControlsTarget s"
    using no by (intro gsap_tick_read_none) simp
  moreover have "filter (\<lambda>x. tw_target (snd x) = CameraPosition) (tweens (gsap_tick e dt s)) = []"
    using gsap_tick_target [OF di, of CameraPosition e dt] nc by simp
  moreover have "filter (\<lambda>x. tw_target (snd x) = ControlsTarget) (tweens (gsap_tick e dt s)) = []"
    using gsap_tick_target [OF di, of ControlsTarget e dt] nt by simp
  ultimately show ?thesis
    unfolding home_def using distinct_gsap_tick [OF di] at by (simp add: read_target_def)
qed

lemma moving_tick:
  assumes "moving g dest dur t s"
  shows "(t + dt < dur \<longrightarrow> moving g dest dur (t + dt) (gsap_tick e dt s))
       \<and> (dur \<le> t + dt
            \<longrightarrow> filter (\<lambda>x. tw_target (snd x) = g) (tweens (gsap_tick e dt s)) = [])"
proof -
  from assms obtain itw where di: "distinct (map fst (tweens s))"
    and one: "filter (\<lambda>x. tw_target (snd x) = g) (tweens s) = [itw]"
    and itw: "tw_to (snd itw) = dest" "tw_duration (snd itw) = dur" "tw_time (snd itw) = t"
    unfolding moving_def by blast
  let ?s = "gsap_tick e dt s"
  have di': "distinct (map fst (tweens ?s))" by (rule distinct_gsap_tick [OF di])
  have fin: "finishes dt itw \<longleftrightarrow> dur \<le> t + dt" using itw by (simp add: finishes_def)
  have tg: "map unstarted (filter (\<lambda>x. tw_target (snd x) = g) (tweens ?s))
              = map (advanced dt) (filter (\<lambda>x. \<not> finishes dt x) [itw])"
    using gsap_tick_target [OF di, of g e dt] one by simp
  have early: "moving g dest dur (t + dt) ?s" if "t + dt < dur"
  proof -
    from that fin tg
    have "map unstarted (filter (\<lambda>x. tw_target (snd x) = g) (tweens ?s)) = [advanced dt itw]"
      by simp
    then obtain itw' where i': "filter (\<lambda>x. tw_target (snd x) = g) (tweens ?s) = [itw']"
      "unstarted itw' = advanced dt itw"
      by (auto simp: map_eq_Cons_conv)
    have "tw_to (snd itw') = dest" "tw_duration (snd itw') = dur" "tw_time (snd itw') = t + dt"
      using i'(2) unstarted_sel [of itw'] advanced_sel [of dt itw] itw by simp_all
    then show ?thesis unfolding moving_def using di' that i'(1) by blast
  qed
  have late: "filter (\<lambda>x. tw_target (snd x) = g) (tweens ?s) = []" if "dur \<le> t + dt"
    using that fin tg by simp
  show ?thesis using early late by blast
qed

lemma moving_finishes:
  assumes "moving g dest dur t s" and "dur \<le> t + dt"
  shows "\<forall>itw\<in>set (tweens s). tw_target (snd itw) = g \<longrightarrow> finishes dt itw \<and> tw_to (snd itw) = dest"
    and "\<exists>itw\<in>set (tweens s). tw_target (snd itw) = g"
proof -
  from assms obtain itw where
    one: "filter (\<lambda>x. tw_target (snd x) = g) (tweens s) = [itw]"
    and itw: "tw_to (snd itw) = dest" "tw_duration (snd itw) = dur" "tw_time (snd itw) = t"
    unfolding moving_def by blast
  have set: "{x \<in> set (tweens s). tw_target (snd x) = g} = {itw}"
    using one set_filter [of "\<lambda>x. tw_target (snd x) = g" "tweens s"] by simp
  have fin: "finishes dt itw" using itw assms(2) by (simp add: finishes_def)
  have "x = itw" if "x \<in> set (tweens s)" "tw_target (snd x) = g" for x
    using set that by blast
  then show "\<forall>itw\<in>set (tweens s). tw_target (snd itw) = g \<longrightarrow> finishes dt itw \<and> tw_to (snd itw) = dest"
    using fin itw(1) by blast
  show "\<exists>itw\<in>set (tweens s). tw_target (snd itw) = g" using set by blast
qed

lemma homing_tick:
  assumes "homing t s"
  shows "(t + dt < 2.1 \<longrightarrow> homing (t + dt) (gsap_tick e dt s))
       \<and> (2.1 \<le> t + dt \<longrightarrow> home (gsap_tick e dt s))"
proof -
  from assms have mc: "moving CameraPosition BASE_CAMERA_POSITION 2.1 t s"
    and mt: "moving ControlsTarget (Vector3 0 0 0) 2.1 t s"
    unfolding homing_def by simp_all
  have di: "distinct (map fst (tweens s))" using mc unfolding moving_def by simp
  have early: "homing (t + dt) (gsap_tick e dt s)" if "t + dt < 2.1"
    unfolding homing_def using moving_tick [OF mc, of dt e] moving_tick [OF mt, of dt e] that
    by simp
  have late: "home (gsap_tick e dt s)" if late: "2.1 \<le> t + dt"
  proof -
    have "tweens s = [] @ tweens s @ []" "distinct (map fst ([] @ tweens s @ []))"
      using di by simp_all
    from fold_home [OF this, of dt e]
      moving_finishes [OF mc late] moving_finishes [OF mt late]
    have "cameraPosition (gsap_tick e dt s) = BASE_CAMERA_POSITION
        \<and> controlsTarget (gsap_tick e dt s) = Vector3 0 0 0"
      unfolding gsap_tick_def by blast
    then show ?thesis
      unfolding home_def
      using distinct_gsap_tick [OF di] moving_tick [OF mc, of dt e] moving_tick [OF mt, of dt e]
        late
      by simp
  qed
  show ?thesis using early late by blast
qed

subsection \<open>What a null focus request sets up\<close>

lemma setHovered_cleared:
  "cameraPosition (setHovered h s) = cameraPosition s"
  "controlsTarget (setHovered h s) = controlsTarget s"
  "controlsEnabled (setHovered h s) = controlsEnabled s"
  by (simp_all add: setHovered_def gsap_to_def emit_def Let_def split: option.splits)

lemma gsap_to_new_ids:
  "itw \<in> set (tweens (snd (gsap_to g v d e ow oc s))) \<Longrightarrow>
   itw \<in> set (tweens s) \<or> nextTween s \<le> fst itw"
  by (auto simp: gsap_to_def Let_def split: if_splits)

lemma gsap_to_nextTween: "nextTween (snd (gsap_to g v d e ow oc s)) = nextTween s + 1"
  by (simp add: gsap_to_def Let_def)

lemma setHovered_new_ids:
  assumes "itw \<in> set (tweens (setHovered h s))"
  shows "itw \<in> set (tweens s) \<or> nextTween s \<le> fst itw"
proof (cases "currentHovered s = h")
  case True
  then show ?thesis using assms by (simp add: setHovered_def)
next
  case False
  let ?s1 = "case currentHovered s of
               None \<Rightarrow> s
             | Some m \<Rightarrow> snd (gsap_to (MeshScale (mesh_ref m)) (Vector3 1 1 1) 0.25
                                DefaultEase True None s)"
  have s1: "x \<in> set (tweens ?s1) \<Longrightarrow> x \<in> set (tweens s) \<or> nextTween s \<le> fst x" for x
    using gsap_to_new_ids by (auto split: option.splits)
  have n1: "nextTween s \<le> nextTween ?s1"
    by (simp add: gsap_to_nextTween split: option.splits)
  have "itw \<in> set (tweens ?s1) \<or> nextTween ?s1 \<le> fst itw"
  proof (cases h)
    case None
    then show ?thesis
      using assms False by (auto simp: setHovered_def Let_def emit_def split: option.splits)
  next
    case (Some m)
    then have "itw \<in> set (tweens (snd (gsap_to (MeshScale (mesh_ref m)) (Vector3 1.45 1.45 1.45)
                  0.25 DefaultEase True None (?s1\<lparr>currentHovered := h\<rparr>))))"
      using assms False by (auto simp: setHovered_def Let_def emit_def split: option.splits)
    from gsap_to_new_ids [OF this] show ?thesis by simp
  qed
  then show ?thesis using s1 [of itw] n1 by auto
qed

lemma focus_effect_null:
  assumes "runtimeRef s = Some runtime"
  shows "\<exists>s4.
     focus_effect None gw s =
       Some (s4\<lparr>emitted := emitted s4 @ [OnHoverChange \<lparr>hover_site = None, hover_x = 0, hover_y = 0\<rparr>],
               tweens := tweens s4 @
                 [(nextTween s4,
                   \<lparr>tw_target = CameraPosition, tw_to = BASE_CAMERA_POSITION, tw_duration = 2.1,
                    tw_ease = ExpoOut, tw_onComplete = None, tw_time = 0, tw_start = None\<rparr>),
                  (nextTween s4 + 1,
                   \<lparr>tw_target = ControlsTarget, tw_to = Vector3 0 0 0, tw_duration = 2.1,
                    tw_ease = ExpoOut, tw_onComplete = None, tw_time = 0, tw_start = None\<rparr>)],
               nextTween := nextTween s4 + 2,
               runtimeRef := Some (runtime\<lparr>pendingFocusId := None, focusLocked := False,
                                            cameraTween := Some (nextTween s4),
                                            targetTween := Some (nextTween s4 + 1)\<rparr>)\<rparr>)
     \<and> s4 = setHovered None
              ((update_runtime (\<lambda>r. r\<lparr>pendingFocusId := None, focusLocked := False\<rparr>)
                 (kill (targetTween runtime) (kill (cameraTween runtime) s)))
               \<lparr>controlsEnabled := True\<rparr>)"
proof -
  let ?s3 = "(update_runtime (\<lambda>r. r\<lparr>pendingFocusId := None, focusLocked := False\<rparr>)
                 (kill (targetTween runtime) (kill (cameraTween runtime) s)))
               \<lparr>controlsEnabled := True\<rparr>"
  have r: "runtimeRef (setHovered None ?s3)
              = Some (runtime\<lparr>pendingFocusId := None, focusLocked := False\<rparr>)"
    by (simp add: setHovered_runtimeRef update_runtime_def kill_frame assms)
  show ?thesis
    by (simp add: focus_effect_def assms Let_def gsap_to_def emit_def
        update_runtime_def [of _ "_\<lparr>tweens := _, nextTween := _\<rparr>"] r)
qed

lemma null_prepared_scale_only:
  assumes "owned s" and "runtimeRef s = Some runtime"
  shows "scale_only (setHovered h ((update_runtime f
                       (kill (targetTween runtime) (kill (cameraTween runtime) s)))
                     \<lparr>controlsEnabled := b\<rparr>))"
    and "nextTween s \<le> nextTween (setHovered h ((update_runtime f
                       (kill (targetTween runtime) (kill (cameraTween runtime) s)))
                     \<lparr>controlsEnabled := b\<rparr>))"
proof -
  let ?s1 = "kill (targetTween runtime) (kill (cameraTween runtime) s)"
  let ?s3 = "(update_runtime f ?s1)\<lparr>controlsEnabled := b\<rparr>"
  have "scale_only ?s1" by (rule kill_scale_only [OF assms])
  then have 3: "scale_only ?s3"
    using scale_only_cong [of ?s3 ?s1] by (simp add: update_runtime_frame)
  have n3: "nextTween ?s3 = nextTween s" by (simp add: update_runtime_frame kill_frame)
  from setHovered_scale_only [OF 3, of h] n3
  show "scale_only (setHovered h ?s3)" "nextTween s \<le> nextTween (setHovered h ?s3)"
    by simp_all
qed

subsection \<open>Inputs that are not focus requests\<close>

lemma owned_cong:
  "runtimeRef s' = runtimeRef s \<Longrightarrow> tweens s' = tweens s \<Longrightarrow> nextTween s' = nextTween s \<Longrightarrow>
   owned s' = owned s"
  by (simp add: owned_def)

lemma quiet_same:
  assumes "runtimeRef s' = runtimeRef s" and "tweens s' = tweens s"
    and "controlsTarget s' = controlsTarget s" and "cameraPosition s' = cameraPosition s"
    and "\<exists>es. emitted s' = emitted s @ es \<and> focus_completions es = []"
  shows "quiet s s'"
  unfolding quiet_def using assms by simp

lemma quiet_trans:
  assumes "quiet s s'" and "quiet s' s''"
  shows "quiet s s''"
proof -
  from assms obtain es es' where "emitted s' = emitted s @ es" "focus_completions es = []"
    "emitted s'' = emitted s' @ es'" "focus_completions es' = []"
    unfolding quiet_def by blast
  then have "emitted s'' = emitted s @ (es @ es') \<and> focus_completions (es @ es') = []"
    by (simp add: focus_completions_append)
  then have "\<exists>es. emitted s'' = emitted s @ es \<and> focus_completions es = []" by blast
  then show ?thesis using assms unfolding quiet_def by simp
qed

lemma setHovered_invariant:
  assumes "P s"
    and "\<And>s m v. P s \<Longrightarrow> P (snd (gsap_to (MeshScale m) v 0.25 DefaultEase True None s))"
    and "\<And>s s'. tweens s' = tweens s \<Longrightarrow> nextTween s' = nextTween s
            \<Longrightarrow> runtimeRef s' = runtimeRef s \<Longrightarrow> P s \<Longrightarrow> P s'"
  shows "P (setHovered h s)"
proof (cases "currentHovered s = h")
  case True
  then show ?thesis using assms(1) by (simp add: setHovered_def)
next
  case False
  let ?s1 = "case currentHovered s of
               None \<Rightarrow> s
             | Some m \<Rightarrow> snd (gsap_to (MeshScale (mesh_ref m)) (Vector3 1 1 1) 0.25
                                DefaultEase True None s)"
  have s1: "P ?s1" using assms(1,2) by (simp split: option.splits)
  let ?s2 = "?s1\<lparr>currentHovered := h\<rparr>"
  have s2: "P ?s2" by (rule assms(3) [OF _ _ _ s1]) simp_all
  show ?thesis
  proof (cases h)
    case None
    have eq: "setHovered h s
            = emit (OnHoverChange \<lparr>hover_site = None, hover_x = 0, hover_y = 0\<rparr>)
                (?s2\<lparr>cursor := ''default''\<rparr>)"
      using False None by (auto simp: setHovered_def Let_def split: option.splits)
    show ?thesis unfolding eq by (rule assms(3) [OF _ _ _ s2]) (simp_all add: emit_def)
  next
    case (Some m)
    let ?g = "gsap_to (MeshScale (mesh_ref m)) (Vector3 1.45 1.45 1.45) 0.25 DefaultEase True None ?s2"
    let ?s4 = "(snd ?g)\<lparr>cursor := ''pointer''\<rparr>"
    let ?ev = "OnHoverChange \<lparr>hover_site = Some (userData_site m),
                               hover_x = fst (pointerClient ?s4), hover_y = snd (pointerClient ?s4)\<rparr>"
    have eq: "setHovered h s = emit ?ev ?s4"
      using False Some by (auto simp: setHovered_def Let_def split: option.splits)
    have g: "P (snd ?g)" by (rule assms(2) [OF s2])
    show ?thesis unfolding eq by (rule assms(3) [OF _ _ _ g]) (simp_all add: emit_def)
  qed
qed

lemma gsap_to_owned:
  assumes "owned s" and "0 < d"
  shows "owned (snd (gsap_to (MeshScale m) v d e ow None s))"
proof -
  let ?kept = "if ow then filter (\<lambda>(j, tw). tw_target tw \<noteq> MeshScale m) (tweens s) else tweens s"
  let ?tw = "\<lparr>tw_target = MeshScale m, tw_to = v, tw_duration = d, tw_ease = e,
              tw_onComplete = None, tw_time = 0, tw_start = None\<rparr>"
  have tw: "tweens (snd (gsap_to (MeshScale m) v d e ow None s)) = ?kept @ [(nextTween s, ?tw)]"
    and nx: "nextTween (snd (gsap_to (MeshScale m) v d e ow None s)) = nextTween s + 1"
    and rt: "runtimeRef (snd (gsap_to (MeshScale m) v d e ow None s)) = runtimeRef s"
    by (simp_all add: gsap_to_def Let_def)
  from assms(1) obtain runtime where r: "runtimeRef s = Some runtime"
    and di: "distinct (map fst (tweens s))"
    and all: "\<forall>itw\<in>set (tweens s).
              fst itw < nextTween s
              \<and> tw_time (snd itw) < tw_duration (snd itw)
              \<and> (tw_target (snd itw) = CameraPosition \<longrightarrow> cameraTween runtime = Some (fst itw))
              \<and> (tw_target (snd itw) = ControlsTarget \<longrightarrow> targetTween runtime = Some (fst itw))
              \<and> (tw_onComplete (snd itw) \<noteq> None \<longrightarrow> tw_target (snd itw) = ControlsTarget)"
    and handles: "\<forall>i. cameraTween runtime = Some i \<or> targetTween runtime = Some i
                      \<longrightarrow> i < nextTween s"
    unfolding owned_def by blast
  have sub: "set ?kept \<subseteq> set (tweens s)" by auto
  have dk: "distinct (map fst ?kept)" using di by (simp add: distinct_map_filter)
  have fresh: "nextTween s \<notin> fst ` set ?kept" using sub all by fastforce
  have old: "\<forall>itw\<in>set ?kept.
              fst itw < nextTween s + 1
              \<and> tw_time (snd itw) < tw_duration (snd itw)
              \<and> (tw_target (snd itw) = CameraPosition \<longrightarrow> cameraTween runtime = Some (fst itw))
              \<and> (tw_target (snd itw) = ControlsTarget \<longrightarrow> targetTween runtime = Some (fst itw))
              \<and> (tw_onComplete (snd itw) \<noteq> None \<longrightarrow> tw_target (snd itw) = ControlsTarget)"
    using sub all by fastforce
  have h': "\<forall>i. cameraTween runtime = Some i \<or> targetTween runtime = Some i
                      \<longrightarrow> i < nextTween s + 1"
    using handles by fastforce
  show ?thesis
    unfolding owned_def tw nx rt r using dk fresh old h' assms(2) by simp
qed

lemma setHovered_owned: "owned s \<Longrightarrow> owned (setHovered h s)"
proof (rule setHovered_invariant [where P = owned])
  fix s :: scene and m v
  have q: "(0::real) < 0.25" by simp
  assume "owned s"
  from gsap_to_owned [OF this q]
  show "owned (snd (gsap_to (MeshScale m) v 0.25 DefaultEase True None s))" .
next
  fix s s' :: scene
  assume "tweens s' = tweens s" "nextTween s' = nextTween s" "runtimeRef s' = runtimeRef s"
    "owned s"
  then show "owned s'" using owned_cong by blast
qed

lemma gsap_to_filter:
  assumes "g \<noteq> MeshScale m"
  shows "filter (\<lambda>x. tw_target (snd x) = g) (tweens (snd (gsap_to (MeshScale m) v d e ow oc s)))
           = filter (\<lambda>x. tw_target (snd x) = g) (tweens s)"
proof -
  have "filter (\<lambda>x. tw_target (snd x) = g) (filter (\<lambda>(j, tw). tw_target tw \<noteq> MeshScale m) xs)
          = filter (\<lambda>x. tw_target (snd x) = g) xs" for xs :: "(nat \<times> tween) list"
    using assms by (induction xs) auto
  then show ?thesis using assms by (simp add: gsap_to_def Let_def)
qed

lemma setHovered_filter:
  assumes "\<forall>m. g \<noteq> MeshScale m"
  shows "filter (\<lambda>x. tw_target (snd x) = g) (tweens (setHovered h s))
           = filter (\<lambda>x. tw_target (snd x) = g) (tweens s)"
  by (rule setHovered_invariant
        [where P = "\<lambda>s'. filter (\<lambda>x. tw_target (snd x) = g) (tweens s')
                           = filter (\<lambda>x. tw_target (snd x) = g) (tweens s)"])
    (simp_all add: gsap_to_filter assms)

lemma setHovered_quiet: "quiet s (setHovered h s)"
  unfolding quiet_def
  by (simp add: setHovered_runtimeRef setHovered_cleared setHovered_filter setHovered_extends)

lemma animate_split:
  "\<exists>s3 s4. runtimeRef s3 = runtimeRef s \<and> tweens s3 = tweens s \<and> nextTween s3 = nextTween s
     \<and> controlsTarget s3 = controlsTarget s \<and> cameraPosition s3 = cameraPosition s
     \<and> emitted s3 = emitted s
     \<and> (s4 = s3 \<or> (\<exists>h. s4 = setHovered h s3))
     \<and> runtimeRef (animate f s) = runtimeRef s4 \<and> tweens (animate f s) = tweens s4
     \<and> nextTween (animate f s) = nextTween s4 \<and> emitted (animate f s) = emitted s4
     \<and> controlsTarget (animate f s) = controlsTarget s4
     \<and> cameraPosition (animate f s) = cameraPosition (controls_update s4)"
proof -
  define s1 where "s1 = (if isFocused s then s\<lparr>disturbWeightTarget := 0\<rparr> else s)"
  define s2 where "s2 = s1\<lparr>disturbWeight :=
                    disturbWeight s1 + (disturbWeightTarget s1 - disturbWeight s1)
                       * min 1 (frame_delta f * 6),
                  disturbCurrent := lerp (disturbCurrent s1) (disturbTarget s1)
                       (min 1 (frame_delta f * 6))\<rparr>"
  define s3 where "s3 = s2\<lparr>galaxyPositions :=
                    map (particle_position (frame_elapsed f) (disturbWeight s2) (disturbCurrent s2))
                      (galaxy s2)\<rparr>"
  define s4 where "s4 = (if \<not> isFocused s then setHovered (intersect0 f) s3
                else if currentHovered s3 \<noteq> None then setHovered None s3
                else s3)"
  have a: "animate f s = controls_update (s4\<lparr>nodeLabels :=
                    map (\<lambda>(i, label).
                           (let u = label_update (cameraPosition s4) (aspect label) (labelWorld f i)
                            in label\<lparr>sprite_scale := fst u, material_opacity := snd u\<rparr>))
                      (enumerate 0 (nodeLabels s4))\<rparr>)"
    unfolding animate_def Let_def s4_def s3_def s2_def s1_def by simp
  have 3: "runtimeRef s3 = runtimeRef s \<and> tweens s3 = tweens s \<and> nextTween s3 = nextTween s
     \<and> controlsTarget s3 = controlsTarget s \<and> cameraPosition s3 = cameraPosition s
     \<and> emitted s3 = emitted s"
    unfolding s3_def s2_def s1_def by simp
  have 4: "s4 = s3 \<or> (\<exists>h. s4 = setHovered h s3)" unfolding s4_def by auto
  have 5: "runtimeRef (animate f s) = runtimeRef s4 \<and> tweens (animate f s) = tweens s4
     \<and> nextTween (animate f s) = nextTween s4 \<and> emitted (animate f s) = emitted s4
     \<and> controlsTarget (animate f s) = controlsTarget s4
     \<and> cameraPosition (animate f s) = cameraPosition (controls_update s4)"
    unfolding a by (simp add: controls_update_frame) (simp add: controls_update_def Let_def)
  from 3 4 5 show ?thesis by blast
qed

lemma animate_owned:
  assumes "owned s"
  shows "owned (animate f s)"
proof -
  from animate_split [of s f] obtain s3 s4 where
    3: "runtimeRef s3 = runtimeRef s" "tweens s3 = tweens s" "nextTween s3 = nextTween s"
    and 4: "s4 = s3 \<or> (\<exists>h. s4 = setHovered h s3)"
    and 5: "runtimeRef (animate f s) = runtimeRef s4" "tweens (animate f s) = tweens s4"
      "nextTween (animate f s) = nextTween s4"
    by blast
  have "owned s3" using owned_cong [OF 3] assms by simp
  then have "owned s4" using 4 setHovered_owned by auto
  then show ?thesis using owned_cong [OF 5] by simp
qed

lemma animate_quiet: "quiet s (animate f s)"
proof -
  from animate_split [of s f] obtain s3 s4 where
    3: "runtimeRef s3 = runtimeRef s" "tweens s3 = tweens s"
       "controlsTarget s3 = controlsTarget s" "cameraPosition s3 = cameraPosition s"
       "emitted s3 = emitted s"
    and 4: "s4 = s3 \<or> (\<exists>h. s4 = setHovered h s3)"
    and 5: "runtimeRef (animate f s) = runtimeRef s4" "tweens (animate f s) = tweens s4"
      "emitted (animate f s) = emitted s4"
      "controlsTarget (animate f s) = controlsTarget s4"
      "cameraPosition (animate f s) = cameraPosition (controls_update s4)"
    by blast
  have q3: "quiet s s3" using 3 by (intro quiet_same) simp_all
  have "quiet s3 s4"
  proof (cases "s4 = s3")
    case True
    then show ?thesis by (intro quiet_same) simp_all
  next
    case False
    then show ?thesis using 4 setHovered_quiet by auto
  qed
  then have q4: "quiet s s4" using q3 quiet_trans by blast
  have stay: "cameraPosition (animate f s) = BASE_CAMERA_POSITION"
    if "cameraPosition s4 = BASE_CAMERA_POSITION" "controlsTarget s4 = Vector3 0 0 0"
    using controls_update_home [OF that] 5(5) by simp
  show ?thesis
    using q4 stay unfolding quiet_def by (simp add: 5)
qed

lemma onPointerMove_frame:
  assumes "onPointerMove x y p s = Some s'"
  shows "runtimeRef s' = runtimeRef s \<and> tweens s' = tweens s \<and> nextTween s' = nextTween s
       \<and> controlsTarget s' = controlsTarget s \<and> cameraPosition s' = cameraPosition s
       \<and> (\<exists>es. emitted s' = emitted s @ es \<and> focus_completions es = [])"
  using assms
  by (auto simp: onPointerMove_def Let_def emit_def split: option.splits if_splits)

lemma onClick_frame:
  "runtimeRef (onClick s) = runtimeRef s \<and> tweens (onClick s) = tweens s
   \<and> nextTween (onClick s) = nextTween s
   \<and> controlsTarget (onClick s) = controlsTarget s \<and> cameraPosition (onClick s) = cameraPosition s
   \<and> (\<exists>es. emitted (onClick s) = emitted s @ es \<and> focus_completions es = [])"
  by (simp add: onClick_def emit_def split: option.splits)

text \<open>Every input other than a tick and a focus request leaves the tweens of the camera and of
  the orbit target, the runtime and the orbit target alone, and reports no focus completion.\<close>

lemma other_step:
  assumes "owned s" and "no_request i" and "\<forall>dt. i \<noteq> GsapTick dt"
  shows "\<exists>s'. step e i s = Some s' \<and> owned s' \<and> quiet s s'"
proof (cases i)
  case (PointerMove x y p)
  from onPointerMove_Some [of x y p s] obtain s' where s': "onPointerMove x y p s = Some s'"
    by auto
  note f = onPointerMove_frame [OF s']
  have "owned s'" using owned_cong [of s' s] f assms(1) by simp
  moreover have "quiet s s'" using f by (intro quiet_same) simp_all
  ultimately show ?thesis using PointerMove s' by simp
next
  case (PointerDown x y)
  have "owned (onPointerDown x y s)"
    using owned_cong [of "onPointerDown x y s" s] assms(1) by (simp add: onPointerDown_def)
  moreover have "quiet s (onPointerDown x y s)"
    by (intro quiet_same) (simp_all add: onPointerDown_def)
  ultimately show ?thesis using PointerDown by simp
next
  case PointerUp
  have "owned (onPointerUp s)"
    using owned_cong [of "onPointerUp s" s] assms(1) by (simp add: onPointerUp_def)
  moreover have "quiet s (onPointerUp s)"
    by (intro quiet_same) (simp_all add: onPointerUp_def)
  ultimately show ?thesis using PointerUp by simp
next
  case PointerLeave
  have "owned (onPointerLeave s)"
    using owned_cong [of "onPointerLeave s" s] assms(1) by (simp add: onPointerLeave_def)
  moreover have "quiet s (onPointerLeave s)"
    by (intro quiet_same) (simp_all add: onPointerLeave_def)
  ultimately show ?thesis using PointerLeave by simp
next
  case Click
  note f = onClick_frame [of s]
  have "owned (onClick s)" using owned_cong [of "onClick s" s] f assms(1) by simp
  moreover have "quiet s (onClick s)" using f by (intro quiet_same) simp_all
  ultimately show ?thesis using Click by simp
next
  case ControlStart
  then show ?thesis
    using setHovered_owned [OF assms(1)] setHovered_quiet by (simp add: onControlStart_def)
next
  case (Frame f)
  then show ?thesis using animate_owned [OF assms(1)] animate_quiet by simp
next
  case (GsapTick dt)
  then show ?thesis using assms(3) by simp
next
  case (FocusRequest fs gw)
  then show ?thesis using assms(2) by simp
qed

subsection \<open>Runs between focus requests\<close>

lemma in_flight_quiet:
  assumes "in_flight X t s" and "owned s'" and "quiet s s'"
  shows "in_flight X t s'"
  using assms unfolding in_flight_def quiet_def by auto

lemma settled_filter:
  "settled s \<longleftrightarrow> owned s \<and> filter (\<lambda>x. tw_target (snd x) = ControlsTarget) (tweens s) = []"
  by (simp add: settled_def filter_empty_conv)

lemma settled_quiet:
  assumes "settled s" and "owned s'" and "quiet s s'"
  shows "settled s'"
  using assms unfolding settled_filter quiet_def by simp

lemma owned_distinct: "owned s \<Longrightarrow> distinct (map fst (tweens s))"
  unfolding owned_def by blast

lemma homing_quiet:
  assumes "homing t s" and "owned s'" and "quiet s s'"
  shows "homing t s'"
  using assms owned_distinct [OF assms(2)] unfolding homing_def moving_def quiet_def by simp

lemma home_quiet:
  assumes "home s" and "owned s'" and "quiet s s'"
  shows "home s'"
  using assms owned_distinct [OF assms(2)] unfolding home_def quiet_def by simp

lemma elapsed_simps:
  "elapsed [] = 0"
  "elapsed (i # ins) = tick_time i + elapsed ins"
  "elapsed (xs @ ys) = elapsed xs + elapsed ys"
  by (simp_all add: elapsed_def)

lemma tick_time_nonneg: "no_request i \<Longrightarrow> 0 \<le> tick_time i"
  by (cases i) simp_all

lemma elapsed_nonneg: "list_all no_request ins \<Longrightarrow> 0 \<le> elapsed ins"
  by (induction ins) (simp_all add: elapsed_simps tick_time_nonneg)

lemma other_tick_time: "\<forall>dt. i \<noteq> GsapTick dt \<Longrightarrow> tick_time i = 0"
  by (cases i) simp_all

lemma settled_run:
  assumes "settled s" and "list_all no_request ins"
  shows "\<exists>s' es. run e ins s = Some s' \<and> settled s'
            \<and> emitted s' = emitted s @ es \<and> focus_completions es = []"
  using assms
proof (induction ins arbitrary: s)
  case Nil
  then show ?case by simp
next
  case (Cons i ins)
  have "\<exists>s1 es1. step e i s = Some s1 \<and> settled s1
           \<and> emitted s1 = emitted s @ es1 \<and> focus_completions es1 = []"
  proof (cases "\<exists>dt. i = GsapTick dt")
    case True
    then obtain dt where "i = GsapTick dt" by blast
    then show ?thesis using settled_tick [OF Cons.prems(1), of e dt] by simp
  next
    case False
    have ow: "owned s" using Cons.prems(1) unfolding settled_def by simp
    from other_step [OF ow, of i e] Cons.prems(2) False
    obtain s1 where s1: "step e i s = Some s1" "owned s1" "quiet s s1" by auto
    then show ?thesis using settled_quiet [OF Cons.prems(1) s1(2,3)] unfolding quiet_def by auto
  qed
  then obtain s1 es1 where s1: "step e i s = Some s1" "settled s1"
    "emitted s1 = emitted s @ es1" "focus_completions es1 = []"
    by blast
  from Cons.IH [OF s1(2)] Cons.prems(2) obtain s' es where
    s': "run e ins s1 = Some s'" "settled s'" "emitted s' = emitted s1 @ es"
    "focus_completions es = []"
    by auto
  have "emitted s' = emitted s @ (es1 @ es)" "focus_completions (es1 @ es) = []"
    using s1 s' by (simp_all add: focus_completions_append)
  then show ?case using s1(1) s'(1,2) by (intro exI [of _ s'] exI [of _ "es1 @ es"]) simp
qed

lemma in_flight_run:
  assumes "in_flight X t s" and "list_all no_request ins"
  shows "\<exists>s' es. run e ins s = Some s' \<and> owned s' \<and> emitted s' = emitted s @ es
            \<and> (if t + elapsed ins < FOCUS_DURATION
                then in_flight X (t + elapsed ins) s' \<and> focus_completions es = []
                else settled s' \<and> focus_completions es = [X])"
  using assms
proof (induction ins arbitrary: s t)
  case Nil
  then show ?case using in_flight_time [OF Nil.prems(1)]
    by (auto simp: elapsed_simps in_flight_def)
next
  case (Cons i ins)
  have rest: "list_all no_request ins" and i: "no_request i" using Cons.prems(2) by simp_all
  show ?case
  proof (cases "\<exists>dt. i = GsapTick dt")
    case True
    then obtain dt where dt: "i = GsapTick dt" by blast
    note tick = in_flight_tick [OF Cons.prems(1), of dt e]
    show ?thesis
    proof (cases "t + dt < FOCUS_DURATION")
      case True
      with tick have 1: "in_flight X (t + dt) (gsap_tick e dt s)"
        "emitted (gsap_tick e dt s) = emitted s"
        by simp_all
      from Cons.IH [OF 1(1) rest] obtain s' es where
        "run e ins (gsap_tick e dt s) = Some s'" "owned s'"
        "emitted s' = emitted (gsap_tick e dt s) @ es"
        "if t + dt + elapsed ins < FOCUS_DURATION
         then in_flight X (t + dt + elapsed ins) s' \<and> focus_completions es = []
         else settled s' \<and> focus_completions es = [X]"
        by blast
      then show ?thesis using dt 1(2)
        by (intro exI [of _ s'] exI [of _ es]) (auto simp: elapsed_simps add.assoc split: if_splits)
    next
      case False
      with tick have 1: "settled (gsap_tick e dt s)"
        "emitted (gsap_tick e dt s) = emitted s @ [OnFocusComplete X]"
        by simp_all
      from settled_run [OF 1(1) rest, of e] obtain s' es where
        s': "run e ins (gsap_tick e dt s) = Some s'" "settled s'"
        "emitted s' = emitted (gsap_tick e dt s) @ es" "focus_completions es = []"
        by blast
      have late: "\<not> t + elapsed (i # ins) < FOCUS_DURATION"
        using False elapsed_nonneg [OF rest] dt by (simp add: elapsed_simps)
      have "emitted s' = emitted s @ (OnFocusComplete X # es)"
        "focus_completions (OnFocusComplete X # es) = [X]"
        using s'(3,4) 1(2) by simp_all
      moreover have "owned s'" using s'(2) unfolding settled_def by simp
      ultimately show ?thesis using dt s'(1,2) late
        by (intro exI [of _ s'] exI [of _ "OnFocusComplete X # es"]) simp
    qed
  next
    case False
    have ow: "owned s" using Cons.prems(1) unfolding in_flight_def by simp
    from other_step [OF ow i, of e] False
    obtain s1 where s1: "step e i s = Some s1" "owned s1" "quiet s s1" by auto
    from s1(3) obtain es1 where es1: "emitted s1 = emitted s @ es1" "focus_completions es1 = []"
      unfolding quiet_def by blast
    have t0: "tick_time i = 0" using False other_tick_time by blast
    from Cons.IH [OF in_flight_quiet [OF Cons.prems(1) s1(2,3)] rest] obtain s' es where
      s': "run e ins s1 = Some s'" "owned s'" "emitted s' = emitted s1 @ es"
        "if t + elapsed ins < FOCUS_DURATION
         then in_flight X (t + elapsed ins) s' \<and> focus_completions es = []
         else settled s' \<and> focus_completions es = [X]"
      by blast
    have "emitted s' = emitted s @ (es1 @ es)"
      "focus_completions (es1 @ es) = focus_completions es"
      using s'(3) es1 by (simp_all add: focus_completions_append)
    then show ?thesis using s1(1) s'(1,2,4) t0
      by (intro exI [of _ s'] exI [of _ "es1 @ es"]) (simp add: elapsed_simps)
  qed
qed

lemma home_run:
  assumes "home s" and "owned s" and "list_all no_request ins"
  shows "\<exists>s'. run e ins s = Some s' \<and> home s' \<and> owned s'"
  using assms
proof (induction ins arbitrary: s)
  case Nil
  then show ?case by simp
next
  case (Cons i ins)
  have "\<exists>s1. step e i s = Some s1 \<and> home s1 \<and> owned s1"
  proof (cases "\<exists>dt. i = GsapTick dt")
    case True
    then obtain dt where "i = GsapTick dt" by blast
    then show ?thesis
      using home_tick [OF Cons.prems(1), of e dt] owned_gsap_tick [OF Cons.prems(2), of e dt]
      by simp
  next
    case False
    from other_step [OF Cons.prems(2), of i e] Cons.prems(3) False
    obtain s1 where s1: "step e i s = Some s1" "owned s1" "quiet s s1" by auto
    then show ?thesis using home_quiet [OF Cons.prems(1) s1(2,3)] by simp
  qed
  then obtain s1 where s1: "step e i s = Some s1" "home s1" "owned s1" by blast
  from Cons.IH [OF s1(2,3)] Cons.prems(3) obtain s' where
    "run e ins s1 = Some s'" "home s'" "owned s'"
    by auto
  then show ?case using s1(1) by simp
qed

lemma homing_run:
  assumes "homing t s" and "owned s" and "list_all no_request ins"
    and "2.1 \<le> t + elapsed ins"
  shows "\<exists>s'. run e ins s = Some s' \<and> home s' \<and> owned s'"
  using assms
proof (induction ins arbitrary: s t)
  case Nil
  then show ?case by (simp add: homing_def moving_def elapsed_simps)
next
  case (Cons i ins)
  have rest: "list_all no_request ins" and i: "no_request i" using Cons.prems(3) by simp_all
  show ?case
  proof (cases "\<exists>dt. i = GsapTick dt")
    case True
    then obtain dt where dt: "i = GsapTick dt" by blast
    note tick = homing_tick [OF Cons.prems(1), of dt e]
    have ow: "owned (gsap_tick e dt s)" by (rule owned_gsap_tick [OF Cons.prems(2)])
    show ?thesis
    proof (cases "2.1 \<le> t + dt")
      case True
      with tick have "home (gsap_tick e dt s)" by simp
      from home_run [OF this ow rest, of e] show ?thesis using dt by simp
    next
      case False
      with tick have 1: "homing (t + dt) (gsap_tick e dt s)" by simp
      have "2.1 \<le> t + dt + elapsed ins" using Cons.prems(4) dt by (simp add: elapsed_simps)
      from Cons.IH [OF 1 ow rest this] show ?thesis using dt by simp
    qed
  next
    case False
    from other_step [OF Cons.prems(2) i, of e] False
    obtain s1 where s1: "step e i s = Some s1" "owned s1" "quiet s s1" by auto
    have t0: "tick_time i = 0" using False other_tick_time by blast
    have "2.1 \<le> t + elapsed ins" using Cons.prems(4) t0 by (simp add: elapsed_simps)
    from Cons.IH [OF homing_quiet [OF Cons.prems(1) s1(2,3)] s1(2) rest this]
    show ?thesis using s1(1) by simp
  qed
qed

subsection \<open>The states a mounted scene can reach\<close>

lemma owned_mount: "owned (mount sites particles)"
  by (simp add: owned_def mount_def)

lemma focus_effect_null_owned:
  assumes "owned s" and "runtimeRef s = Some runtime"
  shows "\<exists>s' c t.
       focus_effect None gw s = Some s'
     \<and> owned s'
     \<and> homing 0 s'
     \<and> (\<forall>i. cameraTween runtime = Some i \<or> targetTween runtime = Some i
              \<longrightarrow> i \<notin> fst ` set (tweens s'))
     \<and> currentHovered s' = None
     \<and> controlsEnabled s'
     \<and> runtimeRef s' = Some (runtime\<lparr>pendingFocusId := None, focusLocked := False,
                                        cameraTween := Some c, targetTween := Some t\<rparr>)
     \<and> filter (\<lambda>x. tw_target (snd x) = CameraPosition) (tweens s')
         = [(c, \<lparr>tw_target = CameraPosition, tw_to = BASE_CAMERA_POSITION, tw_duration = 2.1,
                 tw_ease = ExpoOut, tw_onComplete = None, tw_time = 0, tw_start = None\<rparr>)]
     \<and> filter (\<lambda>x. tw_target (snd x) = ControlsTarget) (tweens s')
         = [(t, \<lparr>tw_target = ControlsTarget, tw_to = Vector3 0 0 0, tw_duration = 2.1,
                 tw_ease = ExpoOut, tw_onComplete = None, tw_time = 0, tw_start = None\<rparr>)]
     \<and> (\<exists>es. emitted s' = emitted s @ es \<and> focus_completions es = [])"
proof -
  let ?s1 = "kill (targetTween runtime) (kill (cameraTween runtime) s)"
  let ?s3 = "(update_runtime (\<lambda>r. r\<lparr>pendingFocusId := None, focusLocked := False\<rparr>) ?s1)
               \<lparr>controlsEnabled := True\<rparr>"
  let ?s4 = "setHovered None ?s3"
  let ?n = "nextTween ?s4"
  let ?cam = "\<lparr>tw_target = CameraPosition, tw_to = BASE_CAMERA_POSITION, tw_duration = 2.1,
                tw_ease = ExpoOut, tw_onComplete = None, tw_time = 0, tw_start = None\<rparr>"
  let ?tgt = "\<lparr>tw_target = ControlsTarget, tw_to = Vector3 0 0 0, tw_duration = 2.1,
                tw_ease = ExpoOut, tw_onComplete = None, tw_time = 0, tw_start = None\<rparr>"
  let ?rt = "runtime\<lparr>pendingFocusId := None, focusLocked := False,
                      cameraTween := Some ?n, targetTween := Some (?n + 1)\<rparr>"
  let ?s' = "?s4\<lparr>emitted := emitted ?s4
                        @ [OnHoverChange \<lparr>hover_site = None, hover_x = 0, hover_y = 0\<rparr>],
                tweens := tweens ?s4 @ [(?n, ?cam), (?n + 1, ?tgt)],
                nextTween := ?n + 2, runtimeRef := Some ?rt\<rparr>"
  have eq: "focus_effect None gw s = Some ?s'"
    using focus_effect_null [OF assms(2), of gw] by simp
  have so: "scale_only ?s4" and nx: "nextTween s \<le> ?n"
    by (rule null_prepared_scale_only [OF assms])+
  from so have di: "distinct (map fst (tweens ?s4))"
    and all: "\<forall>itw\<in>set (tweens ?s4).
           fst itw < ?n
           \<and> tw_time (snd itw) < tw_duration (snd itw)
           \<and> tw_onComplete (snd itw) = None
           \<and> tw_target (snd itw) \<noteq> CameraPosition
           \<and> tw_target (snd itw) \<noteq> ControlsTarget"
    unfolding scale_only_def by simp_all
  have fresh: "?n \<notin> fst ` set (tweens ?s4)" "Suc ?n \<notin> fst ` set (tweens ?s4)"
    using all by fastforce+
  have handles: "\<forall>i. cameraTween runtime = Some i \<or> targetTween runtime = Some i
                      \<longrightarrow> i < nextTween s"
    using assms unfolding owned_def by auto
  have killed: "i \<notin> fst ` set (tweens ?s')"
    if i: "cameraTween runtime = Some i \<or> targetTween runtime = Some i" for i
  proof
    assume "i \<in> fst ` set (tweens ?s')"
    then obtain itw where itw: "itw \<in> set (tweens ?s')" "fst itw = i" by blast
    have lt: "i < nextTween s" using handles i by blast
    from itw(1) have "itw \<in> set (tweens ?s4) \<or> fst itw = ?n \<or> fst itw = ?n + 1" by auto
    then show False
    proof
      assume "itw \<in> set (tweens ?s4)"
      from setHovered_new_ids [OF this]
      have "itw \<in> set (tweens ?s1) \<or> nextTween s \<le> fst itw"
        by (simp add: update_runtime_frame kill_frame)
      then show False
      proof
        assume "itw \<in> set (tweens ?s1)"
        then have "cameraTween runtime \<noteq> Some (fst itw) \<and> targetTween runtime \<noteq> Some (fst itw)"
          by (simp add: kill_tweens(1))
        then show False using i itw(2) by simp
      next
        assume "nextTween s \<le> fst itw"
        then show False using lt itw(2) by simp
      qed
    next
      assume "fst itw = ?n \<or> fst itw = ?n + 1"
      then show False using lt nx itw(2) by auto
    qed
  qed
  have hov: "currentHovered ?s' = None" by (simp add: setHovered_currentHovered)
  have en: "controlsEnabled ?s'" by (simp add: setHovered_cleared)
  have nocam: "filter (\<lambda>x. tw_target (snd x) = CameraPosition) (tweens ?s4) = []"
    and notgt: "filter (\<lambda>x. tw_target (snd x) = ControlsTarget) (tweens ?s4) = []"
    using all by (simp_all add: filter_empty_conv)
  have fc: "filter (\<lambda>x. tw_target (snd x) = CameraPosition) (tweens ?s') = [(?n, ?cam)]"
    using nocam by simp
  have ft: "filter (\<lambda>x. tw_target (snd x) = ControlsTarget) (tweens ?s') = [(?n + 1, ?tgt)]"
    using notgt by simp
  have di': "distinct (map fst (tweens ?s'))" using di fresh by simp
  have hm: "homing 0 ?s'"
    unfolding homing_def moving_def using di' fc ft by simp
  have ow: "owned ?s'"
    unfolding owned_def using di all fresh by (auto simp: less_Suc_eq)
  have rt: "runtimeRef ?s' = Some ?rt" by simp
  from setHovered_extends [of None ?s3] obtain es where
    es: "emitted ?s4 = emitted s @ es" "focus_completions es = []"
    by (auto simp: update_runtime_frame kill_frame)
  have "emitted ?s' = emitted s
           @ (es @ [OnHoverChange \<lparr>hover_site = None, hover_x = 0, hover_y = 0\<rparr>])"
    "focus_completions (es @ [OnHoverChange \<lparr>hover_site = None, hover_x = 0, hover_y = 0\<rparr>]) = []"
    using es by (simp_all add: focus_completions_append)
  then have em: "\<exists>es. emitted ?s' = emitted s @ es \<and> focus_completions es = []" by blast
  show ?thesis
    apply (rule exI [of _ ?s'])
    apply (rule exI [of _ ?n])
    apply (rule exI [of _ "?n + 1"])
    using eq ow hm killed hov en rt fc ft em
    by blast
qed

lemma owned_step:
  assumes "owned s"
  shows "\<exists>s'. step e i s = Some s' \<and> owned s'"
proof (cases i)
  case (GsapTick dt)
  then show ?thesis using owned_gsap_tick [OF assms] by simp
next
  case (FocusRequest fs gw)
  show ?thesis
  proof (cases fs)
    case None
    from assms obtain runtime where "runtimeRef s = Some runtime" unfolding owned_def by blast
    from focus_effect_null_owned [OF assms this, of gw] show ?thesis
      using FocusRequest None by auto
  next
    case (Some site)
    from focus_effect_in_flight [OF assms, of site gw] show ?thesis
      using FocusRequest Some unfolding in_flight_def by auto
  qed
qed (use other_step [OF assms, of i e] in auto)

lemma owned_run:
  assumes "owned s"
  shows "\<exists>s'. run e ins s = Some s' \<and> owned s'"
  using assms
proof (induction ins arbitrary: s)
  case Nil
  then show ?case by simp
next
  case (Cons i ins)
  from owned_step [OF Cons.prems, of e i] obtain s1 where "step e i s = Some s1" "owned s1"
    by blast
  then show ?case using Cons.IH [of s1] by simp
qed

lemma owned_reachable:
  assumes "run e ins (mount sites particles) = Some s"
  shows "owned s"
  using owned_run [OF owned_mount, of e ins sites particles] assms by simp

subsection \<open>A focus request superseded by another\<close>

text \<open>
  C3. Take any state a mounted scene can reach, and from it a focus request for a node A,
  then any inputs other than focus requests whose ticks (none of them negative) add up to
  less than \<open>FOCUS_DURATION\<close>, so that A's transition has not completed, then a focus
  request for a node B, then any inputs other than focus requests whose ticks add up to at
  least \<open>FOCUS_DURATION\<close>. Then \<open>onFocusComplete\<close> is called exactly once in all of this,
  with B, and never for A. The request for B kills A's tweens: right after it the only tween
  with a completion callback is B's; and by the guard on \<open>pendingFocusId\<close> A's callback
  would do nothing then, when the two ids differ.
\<close>

theorem superseded_focus_completes_once:
  assumes "run easing ins0 (mount sites particles) = Some s"
    and "list_all no_request ins1" and "elapsed ins1 < FOCUS_DURATION"
    and "list_all no_request ins2" and "FOCUS_DURATION \<le> elapsed ins2"
  shows "\<exists>s1 sB s' es.
           run easing (FocusRequest (Some A) gwA # ins1) s = Some s1
         \<and> focus_effect (Some B) gwB s1 = Some sB
         \<and> (\<forall>itw\<in>set (tweens sB). tw_onComplete (snd itw) \<noteq> None
               \<longrightarrow> tw_onComplete (snd itw) = Some B)
         \<and> (site_id A \<noteq> site_id B \<longrightarrow> onComplete A sB = sB)
         \<and> run easing (FocusRequest (Some A) gwA # ins1 @ FocusRequest (Some B) gwB # ins2) s
             = Some s'
         \<and> emitted s' = emitted s @ es
         \<and> focus_completions es = [B]"
proof -
  have ow: "owned s" by (rule owned_reachable [OF assms(1)])
  from focus_effect_in_flight [OF ow, of A gwA] obtain sA esA where
    a: "focus_effect (Some A) gwA s = Some sA" "in_flight A 0 sA"
      "emitted sA = emitted s @ esA" "focus_completions esA = []"
    by blast
  from in_flight_run [OF a(2) assms(2), of easing] assms(3) obtain s1 es1 where
    r1: "run easing ins1 sA = Some s1" "owned s1" "emitted s1 = emitted sA @ es1"
      "focus_completions es1 = []"
    by auto
  from focus_effect_in_flight [OF r1(2), of B gwB] obtain sB esB where
    b: "focus_effect (Some B) gwB s1 = Some sB" "in_flight B 0 sB"
      "emitted sB = emitted s1 @ esB" "focus_completions esB = []"
    by blast
  from in_flight_run [OF b(2) assms(4), of easing] assms(5) obtain s' es2 where
    r2: "run easing ins2 sB = Some s'" "emitted s' = emitted sB @ es2"
      "focus_completions es2 = [B]"
    by auto
  have run1: "run easing (FocusRequest (Some A) gwA # ins1) s = Some s1"
    using a(1) r1(1) by simp
  have run2: "run easing (FocusRequest (Some A) gwA # ins1 @ FocusRequest (Some B) gwB # ins2) s
                = Some s'"
    using a(1) r1(1) b(1) r2(1) by (simp add: run_append)
  have em: "emitted s' = emitted s @ (esA @ es1 @ esB @ es2)"
    using r2(2) b(3) r1(3) a(3) by simp
  have fc: "focus_completions (esA @ es1 @ esB @ es2) = [B]"
    using a(4) r1(4) b(4) r2(3) by (simp add: focus_completions_append)
  have guard: "site_id A \<noteq> site_id B \<longrightarrow> onComplete A sB = sB"
    using onComplete_guard [OF b(2)] by blast
  from run1 b(1) in_flight_callbacks [OF b(2)] guard run2 em fc show ?thesis by blast
qed

theorem superseded_focus_completes_once_witness:
  "run linear [] (mount [site_a, site_b] []) = Some scene_ab
   \<and> list_all no_request [GsapTick 0.5, Click, GsapTick 0.5]
   \<and> elapsed [GsapTick 0.5, Click, GsapTick 0.5] < FOCUS_DURATION
   \<and> list_all no_request [GsapTick 1, PointerLeave, GsapTick 1]
   \<and> FOCUS_DURATION \<le> elapsed [GsapTick 1, PointerLeave, GsapTick 1]
   \<and> map_option (\<lambda>s. focus_completions (emitted s))
        (run linear (FocusRequest (Some site_a) site_position # [GsapTick 0.5, Click, GsapTick 0.5]
                      @ FocusRequest (Some site_b) site_position
                        # [GsapTick 1, PointerLeave, GsapTick 1]) scene_ab)
      = Some [site_b]"
proof -
  have h1: "run linear [] (mount [site_a, site_b] []) = Some scene_ab"
    by (simp add: scene_ab_def)
  have h2: "list_all no_request [GsapTick 0.5, Click, GsapTick 0.5]" by simp
  have h3: "elapsed [GsapTick 0.5, Click, GsapTick 0.5] < FOCUS_DURATION"
    by (simp add: elapsed_def FOCUS_DURATION_def)
  have h4: "list_all no_request [GsapTick 1, PointerLeave, GsapTick 1]" by simp
  have h5: "FOCUS_DURATION \<le> elapsed [GsapTick 1, PointerLeave, GsapTick 1]"
    by (simp add: elapsed_def FOCUS_DURATION_def)
  have e0: "emitted scene_ab = []" by (simp add: scene_ab_def mount_def)
  from superseded_focus_completes_once [OF h1 h2 h3 h4 h5, of site_a site_position
      site_b site_position]
  obtain s' es where
    "run linear (FocusRequest (Some site_a) site_position # [GsapTick 0.5, Click, GsapTick 0.5]
                      @ FocusRequest (Some site_b) site_position
                        # [GsapTick 1, PointerLeave, GsapTick 1]) scene_ab
       = Some s'"
    "emitted s' = emitted scene_ab @ es" "focus_completions es = [site_b]"
    by blast
  then have "map_option (\<lambda>s. focus_completions (emitted s))
        (run linear (FocusRequest (Some site_a) site_position # [GsapTick 0.5, Click, GsapTick 0.5]
                      @ FocusRequest (Some site_b) site_position
                        # [GsapTick 1, PointerLeave, GsapTick 1]) scene_ab)
      = Some [site_b]"
    by (simp add: e0)
  with h1 h2 h3 h4 h5 show ?thesis by blast
qed

subsection \<open>The null focus request\<close>

text \<open>
  C6. In any state a mounted scene can reach, a null focus request kills the runtime's camera
  and target tweens, clears hover, re-enables the controls, clears the focus lock and the
  pending focus id, and starts one tween of the camera position to the base pose
  \<open>(0, 0, 40)\<close> and one of the orbit target to the origin, both over 2.1 seconds;
  these are then the only tweens of the camera and of the orbit target. After any further
  inputs other than focus requests whose ticks (none of them negative) add up to at least
  2.1 seconds, frames with their \<open>controls.update()\<close> included, the camera is at the base
  pose and the orbit target at the origin.
\<close>

theorem null_focus_returns_to_base:
  assumes "run easing ins0 (mount sites particles) = Some s"
  shows "\<exists>runtime s' c t.
       runtimeRef s = Some runtime
     \<and> focus_effect None gw s = Some s'
     \<and> (\<forall>i. cameraTween runtime = Some i \<or> targetTween runtime = Some i
              \<longrightarrow> i \<notin> fst ` set (tweens s'))
     \<and> currentHovered s' = None
     \<and> controlsEnabled s'
     \<and> runtimeRef s' = Some (runtime\<lparr>pendingFocusId := None, focusLocked := False,
                                        cameraTween := Some c, targetTween := Some t\<rparr>)
     \<and> filter (\<lambda>x. tw_target (snd x) = CameraPosition) (tweens s')
         = [(c, \<lparr>tw_target = CameraPosition, tw_to = BASE_CAMERA_POSITION, tw_duration = 2.1,
                 tw_ease = ExpoOut, tw_onComplete = None, tw_time = 0, tw_start = None\<rparr>)]
     \<and> filter (\<lambda>x. tw_target (snd x) = ControlsTarget) (tweens s')
         = [(t, \<lparr>tw_target = ControlsTarget, tw_to = Vector3 0 0 0, tw_duration = 2.1,
                 tw_ease = ExpoOut, tw_onComplete = None, tw_time = 0, tw_start = None\<rparr>)]
     \<and> BASE_CAMERA_POSITION = Vector3 0 0 40
     \<and> (\<forall>ins. list_all no_request ins \<and> 2.1 \<le> elapsed ins
            \<longrightarrow> (\<exists>s''. run easing ins s' = Some s''
                       \<and> cameraPosition s'' = Vector3 0 0 40
                       \<and> controlsTarget s'' = Vector3 0 0 0))"
proof -
  have ow: "owned s" by (rule owned_reachable [OF assms])
  then obtain runtime where rt: "runtimeRef s = Some runtime" unfolding owned_def by blast
  from focus_effect_null_owned [OF ow rt, of gw] obtain s' c t where
    s': "focus_effect None gw s = Some s'" "owned s'" "homing 0 s'"
      "\<forall>i. cameraTween runtime = Some i \<or> targetTween runtime = Some i
              \<longrightarrow> i \<notin> fst ` set (tweens s')"
      "currentHovered s' = None" "controlsEnabled s'"
      "runtimeRef s' = Some (runtime\<lparr>pendingFocusId := None, focusLocked := False,
                                        cameraTween := Some c, targetTween := Some t\<rparr>)"
      "filter (\<lambda>x. tw_target (snd x) = CameraPosition) (tweens s')
         = [(c, \<lparr>tw_target = CameraPosition, tw_to = BASE_CAMERA_POSITION, tw_duration = 2.1,
                 tw_ease = ExpoOut, tw_onComplete = None, tw_time = 0, tw_start = None\<rparr>)]"
      "filter (\<lambda>x. tw_target (snd x) = ControlsTarget) (tweens s')
         = [(t, \<lparr>tw_target = ControlsTarget, tw_to = Vector3 0 0 0, tw_duration = 2.1,
                 tw_ease = ExpoOut, tw_onComplete = None, tw_time = 0, tw_start = None\<rparr>)]"
    by blast
  have finished: "\<exists>s''. run easing ins s' = Some s''
                       \<and> cameraPosition s'' = Vector3 0 0 40
                       \<and> controlsTarget s'' = Vector3 0 0 0"
    if "list_all no_request ins \<and> 2.1 \<le> elapsed ins" for ins
  proof -
    from that have nr: "list_all no_request ins" and long: "2.1 \<le> 0 + elapsed ins"
      by simp_all
    from homing_run [OF s'(3,2) nr long, of easing] show ?thesis
      by (auto simp: home_def BASE_CAMERA_POSITION_def)
  qed
  have base: "BASE_CAMERA_POSITION = Vector3 0 0 40" by (simp add: BASE_CAMERA_POSITION_def)
  show ?thesis
    apply (rule exI [of _ runtime])
    apply (rule exI [of _ s'])
    apply (rule exI [of _ c])
    apply (rule exI [of _ t])
    using rt s'(1,4,5,6,7,8,9) base finished
    by blast
qed

theorem null_focus_returns_to_base_witness:
  "run linear [] (mount [site_a, site_b] []) = Some scene_ab
   \<and> map_option (\<lambda>s. (cameraPosition s, controlsTarget s))
        (run linear (FocusRequest None site_position
                      # [GsapTick 1, Frame (frame_at 0.016 1 None), GsapTick 1.5]) scene_ab)
      = Some (Vector3 0 0 40, Vector3 0 0 0)
   \<and> map_option (\<lambda>s. (cameraPosition s, controlsTarget s))
        (run linear ([FocusRequest (Some site_a) site_position, GsapTick 2]
                      @ FocusRequest None site_position # [GsapTick 3])
           (mount [site_a, site_b] []))
      = Some (Vector3 0 0 40, Vector3 0 0 0)"
proof -
  have h1: "run linear [] (mount [site_a, site_b] []) = Some scene_ab"
    by (simp add: scene_ab_def)
  have i1: "list_all no_request [GsapTick 1, Frame (frame_at 0.016 1 None), GsapTick 1.5]
            \<and> 2.1 \<le> elapsed [GsapTick 1, Frame (frame_at 0.016 1 None), GsapTick 1.5]"
    by (simp add: elapsed_def)
  from null_focus_returns_to_base [OF h1, of site_position] i1
  obtain s' s'' where
    "focus_effect None site_position scene_ab = Some s'"
    "run linear [GsapTick 1, Frame (frame_at 0.016 1 None), GsapTick 1.5] s' = Some s''"
    "cameraPosition s'' = Vector3 0 0 40" "controlsTarget s'' = Vector3 0 0 0"
    by blast
  then have 1: "map_option (\<lambda>s. (cameraPosition s, controlsTarget s))
        (run linear (FocusRequest None site_position
                      # [GsapTick 1, Frame (frame_at 0.016 1 None), GsapTick 1.5]) scene_ab)
      = Some (Vector3 0 0 40, Vector3 0 0 0)"
    by simp
  from owned_run [OF owned_mount, of linear "[FocusRequest (Some site_a) site_position, GsapTick 2]"
      "[site_a, site_b]" "[]"]
  obtain sF where
    h2: "run linear [FocusRequest (Some site_a) site_position, GsapTick 2]
           (mount [site_a, site_b] []) = Some sF"
    by blast
  have i2: "list_all no_request [GsapTick 3] \<and> 2.1 \<le> elapsed [GsapTick 3]"
    by (simp add: elapsed_def)
  from null_focus_returns_to_base [OF h2, of site_position] i2
  obtain t' t'' where
    "focus_effect None site_position sF = Some t'"
    "run linear [GsapTick 3] t' = Some t''"
    "cameraPosition t'' = Vector3 0 0 40" "controlsTarget t'' = Vector3 0 0 0"
    by blast
  then have "map_option (\<lambda>s. (cameraPosition s, controlsTarget s))
               (run linear (FocusRequest None site_position # [GsapTick 3]) sF)
             = Some (Vector3 0 0 40, Vector3 0 0 0)"
    by simp
  moreover have "run linear ([FocusRequest (Some site_a) site_position, GsapTick 2]
                      @ FocusRequest None site_position # [GsapTick 3])
           (mount [site_a, site_b] [])
         = run linear (FocusRequest None site_position # [GsapTick 3]) sF"
    by (simp only: run_append h2 option.case)
  ultimately have 2: "map_option (\<lambda>s. (cameraPosition s, controlsTarget s))
        (run linear ([FocusRequest (Some site_a) site_position, GsapTick 2]
                      @ FocusRequest None site_position # [GsapTick 3])
           (mount [site_a, site_b] []))
      = Some (Vector3 0 0 40, Vector3 0 0 0)"
    by simp
  from h1 1 2 show ?thesis by blast
qed

subsection \<open>Default directions\<close>

lemma length_v_unit:
  assumes "a \<noteq> Vector3 0 0 0"
  shows "length_v (multiplyScalar a (1 / length_v a)) = 1"
  using lengthSq_unit [OF assms] by (simp add: length_v_def [of "multiplyScalar a (1 / length_v a)"])

lemma lengthSq_threshold: "lengthSq a < 0.0001 \<longleftrightarrow> length_v a < 0.01"
proof -
  have s: "sqrt 0.0001 = 0.01" by (rule real_sqrt_unique) (simp_all add: power2_eq_square)
  have "length_v a < 0.01 \<longleftrightarrow> sqrt (lengthSq a) < sqrt 0.0001"
    unfolding length_v_def s by (rule refl)
  also have "\<dots> \<longleftrightarrow> lengthSq a < 0.0001" by (rule real_sqrt_less_iff)
  finally show ?thesis by (rule sym)
qed

lemma length_v_x: "0 \<le> a \<Longrightarrow> length_v (Vector3 a 0 0) = a"
  by (simp add: length_v_def lengthSq_def)

lemma sub_v_zero_iff: "sub_v a b = Vector3 0 0 0 \<longleftrightarrow> a = b"
  by (cases a; cases b) (simp add: sub_v_def)

lemma curve_points_eq:
  "curve_points sitePoints from c =
     (let to = sitePoints ! pointIndex c;
          midpoint = multiplyScalar (add_v from to) 0.5;
          normal = (if midpoint = Vector3 0 0 0 then Vector3 0 1 0
                    else multiplyScalar midpoint (1 / length_v midpoint));
          control = addScaledVector midpoint normal (0.2 * sqrt (distance c) + 1.2);
          sampledPoints = getPoints from control to 14
      in Some (concat (map (\<lambda>i. [sampledPoints ! i, sampledPoints ! (i + 1)])
                 [0..<length sampledPoints - 1])))"
  unfolding curve_points_def Let_def curveNormal_eq option.case by (rule refl)

lemma focus_effect_destination:
  assumes "runtimeRef s = Some runtime"
  shows "\<exists>s' c direction.
       focus_effect (Some fs) gw s = Some s'
     \<and> approachDirection (cameraPosition s)
          (case nodeMeshById runtime (site_id fs) of
             None \<Rightarrow> position fs | Some targetNode \<Rightarrow> gw targetNode) = Some direction
     \<and> (c, \<lparr>tw_target = CameraPosition,
             tw_to = addScaledVector
                       (case nodeMeshById runtime (site_id fs) of
                          None \<Rightarrow> position fs | Some targetNode \<Rightarrow> gw targetNode)
                       direction FOCUS_DISTANCE,
             tw_duration = FOCUS_DURATION, tw_ease = ExpoInOut, tw_onComplete = None,
             tw_time = 0, tw_start = None\<rparr>) \<in> set (tweens s')"
proof -
  from focus_effect_site [OF assms, of fs gw] obtain s4 focusTarget destination where
    eq: "focus_effect (Some fs) gw s =
       Some (s4\<lparr>tweens := tweens s4 @
                 [(nextTween s4,
                   \<lparr>tw_target = CameraPosition, tw_to = destination, tw_duration = FOCUS_DURATION,
                    tw_ease = ExpoInOut, tw_onComplete = None, tw_time = 0, tw_start = None\<rparr>),
                  (nextTween s4 + 1,
                   \<lparr>tw_target = ControlsTarget, tw_to = focusTarget, tw_duration = FOCUS_DURATION,
                    tw_ease = ExpoInOut, tw_onComplete = Some fs, tw_time = 0, tw_start = None\<rparr>)],
               nextTween := nextTween s4 + 2,
               runtimeRef := Some (runtime\<lparr>pendingFocusId := Some (site_id fs), focusLocked := True,
                                            cameraTween := Some (nextTween s4),
                                            targetTween := Some (nextTween s4 + 1)\<rparr>)\<rparr>)"
    and s4: "s4 = (setHovered None
              (update_runtime (\<lambda>r. r\<lparr>pendingFocusId := Some (site_id fs), focusLocked := True\<rparr>)
                 (kill (targetTween runtime) (kill (cameraTween runtime) s))))
            \<lparr>controlsEnabled := False\<rparr>"
    and ft: "focusTarget = (case nodeMeshById runtime (site_id fs) of
                        None \<Rightarrow> position fs | Some targetNode \<Rightarrow> gw targetNode)"
    and de: "destination =
         addScaledVector focusTarget
           (if lengthSq (sub_v (cameraPosition s4) focusTarget) < 0.0001 then Vector3 0 0 1
            else multiplyScalar (sub_v (cameraPosition s4) focusTarget)
                   (1 / length_v (sub_v (cameraPosition s4) focusTarget)))
           FOCUS_DISTANCE"
    by blast
  have cam: "cameraPosition s4 = cameraPosition s"
    unfolding s4 by (simp add: setHovered_cleared update_runtime_def kill_frame)
  let ?direction = "if lengthSq (sub_v (cameraPosition s) focusTarget) < 0.0001 then Vector3 0 0 1
            else multiplyScalar (sub_v (cameraPosition s) focusTarget)
                   (1 / length_v (sub_v (cameraPosition s) focusTarget))"
  have ad: "approachDirection (cameraPosition s) focusTarget = Some ?direction"
    by (rule approachDirection_eq)
  have de': "destination = addScaledVector focusTarget ?direction FOCUS_DISTANCE"
    using de cam by simp
  let ?s' = "s4\<lparr>tweens := tweens s4 @
                 [(nextTween s4,
                   \<lparr>tw_target = CameraPosition, tw_to = destination, tw_duration = FOCUS_DURATION,
                    tw_ease = ExpoInOut, tw_onComplete = None, tw_time = 0, tw_start = None\<rparr>),
                  (nextTween s4 + 1,
                   \<lparr>tw_target = ControlsTarget, tw_to = focusTarget, tw_duration = FOCUS_DURATION,
                    tw_ease = ExpoInOut, tw_onComplete = Some fs, tw_time = 0, tw_start = None\<rparr>)],
               nextTween := nextTween s4 + 2,
               runtimeRef := Some (runtime\<lparr>pendingFocusId := Some (site_id fs), focusLocked := True,
                                            cameraTween := Some (nextTween s4),
                                            targetTween := Some (nextTween s4 + 1)\<rparr>)\<rparr>"
  have mem: "(nextTween s4,
              \<lparr>tw_target = CameraPosition, tw_to = destination, tw_duration = FOCUS_DURATION,
               tw_ease = ExpoInOut, tw_onComplete = None, tw_time = 0, tw_start = None\<rparr>)
             \<in> set (tweens ?s')"
    by simp
  from eq ad mem show ?thesis unfolding de' ft by blast
qed

text \<open>
  C9. No direction is ever divided by a zero length, and which direction is used is this.
  The curve normal of a constellation edge is \<open>(0, 1, 0)\<close> exactly when the midpoint of the
  edge is the scene origin, and the normalized midpoint otherwise, however short the
  midpoint is: the test \<open>lengthSq() < 0.0001\<close> is made after normalizing, and a normalized
  nonzero vector has length 1. The approach direction of a focus request is \<open>(0, 0, 1)\<close>
  exactly when the squared distance between the camera and the focus target is below
  \<open>0.0001\<close>, that is when they are less than \<open>0.01\<close> apart, as they are when they
  coincide, and the normalized difference otherwise. Both directions have length 1. The
  builder of the constellation, \<open>onPointerMove\<close> and the focus effect always return, and the
  camera tween of a focus request goes to the point \<open>FOCUS_DISTANCE\<close> from the focus target
  along that approach direction.
\<close>

theorem direction_defaults:
  fixes midpoint cameraPos focusTarget :: vec3
  defines "d \<equiv> sub_v cameraPos focusTarget"
  shows "curveNormal midpoint
           = Some (if midpoint = Vector3 0 0 0 then Vector3 0 1 0
                   else multiplyScalar midpoint (1 / length_v midpoint))
       \<and> (length_v midpoint = 0 \<longleftrightarrow> midpoint = Vector3 0 0 0)
       \<and> approachDirection cameraPos focusTarget
           = Some (if lengthSq d < 0.0001 then Vector3 0 0 1
                   else multiplyScalar d (1 / length_v d))
       \<and> (lengthSq d < 0.0001 \<longleftrightarrow> length_v d < 0.01)
       \<and> (length_v d = 0 \<longleftrightarrow> cameraPos = focusTarget)
       \<and> (\<exists>n. curveNormal midpoint = Some n \<and> length_v n = 1)
       \<and> (\<exists>a. approachDirection cameraPos focusTarget = Some a \<and> length_v a = 1)
       \<and> curve_points sitePoints from c =
           (let to = sitePoints ! pointIndex c;
                m = multiplyScalar (add_v from to) 0.5;
                normal = (if m = Vector3 0 0 0 then Vector3 0 1 0
                          else multiplyScalar m (1 / length_v m));
                control = addScaledVector m normal (0.2 * sqrt (distance c) + 1.2);
                sampledPoints = getPoints from control to 14
            in Some (concat (map (\<lambda>i. [sampledPoints ! i, sampledPoints ! (i + 1)])
                       [0..<length sampledPoints - 1])))
       \<and> (\<exists>segments. curveSegments sitePoints = Some segments)
       \<and> (\<exists>s'. onPointerMove clientX clientY disturbProject s = Some s')
       \<and> (\<exists>s'. focus_effect focusSite getWorldPosition s = Some s')
       \<and> (\<forall>runtime. runtimeRef s = Some runtime \<longrightarrow>
            (\<exists>s' tw direction.
                 focus_effect (Some fs) getWorldPosition s = Some s'
               \<and> approachDirection (cameraPosition s)
                    (case nodeMeshById runtime (site_id fs) of
                       None \<Rightarrow> position fs
                     | Some targetNode \<Rightarrow> getWorldPosition targetNode) = Some direction
               \<and> (tw, \<lparr>tw_target = CameraPosition,
                        tw_to = addScaledVector
                                  (case nodeMeshById runtime (site_id fs) of
                                     None \<Rightarrow> position fs
                                   | Some targetNode \<Rightarrow> getWorldPosition targetNode)
                                  direction FOCUS_DISTANCE,
                        tw_duration = FOCUS_DURATION, tw_ease = ExpoInOut, tw_onComplete = None,
                        tw_time = 0, tw_start = None\<rparr>) \<in> set (tweens s')))"
proof -
  have 1: "curveNormal midpoint
           = Some (if midpoint = Vector3 0 0 0 then Vector3 0 1 0
                   else multiplyScalar midpoint (1 / length_v midpoint))"
    by (rule curveNormal_eq)
  have 2: "length_v midpoint = 0 \<longleftrightarrow> midpoint = Vector3 0 0 0"
    by (rule length_v_zero_iff)
  have 3: "approachDirection cameraPos focusTarget
           = Some (if lengthSq d < 0.0001 then Vector3 0 0 1
                   else multiplyScalar d (1 / length_v d))"
    unfolding d_def by (rule approachDirection_eq)
  have 4: "lengthSq d < 0.0001 \<longleftrightarrow> length_v d < 0.01"
    by (rule lengthSq_threshold)
  have 5: "length_v d = 0 \<longleftrightarrow> cameraPos = focusTarget"
    unfolding d_def by (simp add: length_v_zero_iff sub_v_zero_iff)
  have up: "length_v (Vector3 0 1 0) = 1" "length_v (Vector3 0 0 1) = 1"
    by (simp_all add: length_v_def lengthSq_def)
  have 6: "\<exists>n. curveNormal midpoint = Some n \<and> length_v n = 1"
    unfolding 1 using up(1) length_v_unit [of midpoint] by simp
  have "lengthSq d < 0.0001 \<or> d \<noteq> Vector3 0 0 0"
    using lengthSq_zero_iff [of d] by auto
  then have 7: "\<exists>a. approachDirection cameraPos focusTarget = Some a \<and> length_v a = 1"
    unfolding 3 using up(2) length_v_unit [of d] by auto
  note 8 = curve_points_eq [of sitePoints "from" c]
  have 9: "\<exists>segments. curveSegments sitePoints = Some segments"
    using curveSegments_Some [of sitePoints] by auto
  have 10: "\<exists>s'. onPointerMove clientX clientY disturbProject s = Some s'"
    using onPointerMove_Some [of clientX clientY disturbProject s] by auto
  have 11: "\<exists>s'. focus_effect focusSite getWorldPosition s = Some s'"
    using focus_effect_Some [of focusSite getWorldPosition s] by auto
  have 12: "\<forall>runtime. runtimeRef s = Some runtime \<longrightarrow>
            (\<exists>s' tw direction.
                 focus_effect (Some fs) getWorldPosition s = Some s'
               \<and> approachDirection (cameraPosition s)
                    (case nodeMeshById runtime (site_id fs) of
                       None \<Rightarrow> position fs
                     | Some targetNode \<Rightarrow> getWorldPosition targetNode) = Some direction
               \<and> (tw, \<lparr>tw_target = CameraPosition,
                        tw_to = addScaledVector
                                  (case nodeMeshById runtime (site_id fs) of
                                     None \<Rightarrow> position fs
                                   | Some targetNode \<Rightarrow> getWorldPosition targetNode)
                                  direction FOCUS_DISTANCE,
                        tw_duration = FOCUS_DURATION, tw_ease = ExpoInOut, tw_onComplete = None,
                        tw_time = 0, tw_start = None\<rparr>) \<in> set (tweens s'))"
    using focus_effect_destination by blast
  from 1 2 3 4 5 6 7 8 9 10 11 12 show ?thesis by (intro conjI)
qed

theorem direction_defaults_witness:
  "runtimeRef (scene_ab\<lparr>cameraPosition := Vector3 3 0 4\<rparr>)
     = Some \<lparr>nodeMeshById = map_of [(''b'', mesh_b), (''a'', mesh_a)], focusLocked = False,
             pendingFocusId = None, cameraTween = None, targetTween = None\<rparr>
   \<and> curveNormal (Vector3 0 0 0) = Some (Vector3 0 1 0)
   \<and> approachDirection (Vector3 3 0 4) (Vector3 3 0 4) = Some (Vector3 0 0 1)
   \<and> (\<exists>s' tw. focus_effect (Some site_a) site_position (scene_ab\<lparr>cameraPosition := Vector3 3 0 4\<rparr>)
                 = Some s'
             \<and> (tw, \<lparr>tw_target = CameraPosition, tw_to = Vector3 3 0 12,
                      tw_duration = FOCUS_DURATION, tw_ease = ExpoInOut, tw_onComplete = None,
                      tw_time = 0, tw_start = None\<rparr>) \<in> set (tweens s'))"
proof -
  let ?s = "scene_ab\<lparr>cameraPosition := Vector3 3 0 4\<rparr>"
  let ?rt = "\<lparr>nodeMeshById = map_of [(''b'', mesh_b), (''a'', mesh_a)], focusLocked = False,
             pendingFocusId = None, cameraTween = None, targetTween = None\<rparr>"
  note t = direction_defaults [where midpoint = "Vector3 0 0 0" and cameraPos = "Vector3 3 0 4"
      and focusTarget = "Vector3 3 0 4" and s = ?s and fs = site_a
      and getWorldPosition = site_position]
  have rt: "runtimeRef ?s = Some ?rt"
    by (simp add: scene_ab_def mount_def enumerate_eq_zip mesh_a_def mesh_b_def site_a_def
        site_b_def)
  have n: "curveNormal (Vector3 0 0 0) = Some (Vector3 0 1 0)"
    using t by simp
  have a: "approachDirection (Vector3 3 0 4) (Vector3 3 0 4) = Some (Vector3 0 0 1)"
    using t by (simp add: sub_v_def lengthSq_def)
  have ft: "(case nodeMeshById ?rt (site_id site_a) of
               None \<Rightarrow> position site_a | Some targetNode \<Rightarrow> site_position targetNode)
            = Vector3 3 0 4"
    by (simp add: site_a_def site_position_def mesh_a_def)
  have cam: "cameraPosition ?s = Vector3 3 0 4" by simp
  from t rt have "\<exists>s' tw direction.
                 focus_effect (Some site_a) site_position ?s = Some s'
               \<and> approachDirection (cameraPosition ?s)
                    (case nodeMeshById ?rt (site_id site_a) of
                       None \<Rightarrow> position site_a
                     | Some targetNode \<Rightarrow> site_position targetNode) = Some direction
               \<and> (tw, \<lparr>tw_target = CameraPosition,
                        tw_to = addScaledVector
                                  (case nodeMeshById ?rt (site_id site_a) of
                                     None \<Rightarrow> position site_a
                                   | Some targetNode \<Rightarrow> site_position targetNode)
                                  direction FOCUS_DISTANCE,
                        tw_duration = FOCUS_DURATION, tw_ease = ExpoInOut, tw_onComplete = None,
                        tw_time = 0, tw_start = None\<rparr>) \<in> set (tweens s')"
    by blast
  then obtain s' tw direction where
    f: "focus_effect (Some site_a) site_position ?s = Some s'"
      "approachDirection (Vector3 3 0 4) (Vector3 3 0 4) = Some direction"
      "(tw, \<lparr>tw_target = CameraPosition,
             tw_to = addScaledVector (Vector3 3 0 4) direction FOCUS_DISTANCE,
             tw_duration = FOCUS_DURATION, tw_ease = ExpoInOut, tw_onComplete = None,
             tw_time = 0, tw_start = None\<rparr>) \<in> set (tweens s')"
    unfolding ft cam by blast
  have "direction = Vector3 0 0 1" using f(2) a by simp
  then have "addScaledVector (Vector3 3 0 4) direction FOCUS_DISTANCE = Vector3 3 0 12"
    by (simp add: addScaledVector_def FOCUS_DISTANCE_def)
  with f(1,3) have "\<exists>s' tw. focus_effect (Some site_a) site_position ?s = Some s'
             \<and> (tw, \<lparr>tw_target = CameraPosition, tw_to = Vector3 3 0 12,
                      tw_duration = FOCUS_DURATION, tw_ease = ExpoInOut, tw_onComplete = None,
                      tw_time = 0, tw_start = None\<rparr>) \<in> set (tweens s')"
    by auto
  with rt n a show ?thesis by blast
qed

text \<open>
  Two directions that are short without being zero. An edge from \<open>(0.002, 0, 0)\<close> to the
  origin has the midpoint \<open>(0.001, 0, 0)\<close>, of length \<open>0.001\<close>; its curve normal is the
  normalized midpoint \<open>(1, 0, 0)\<close>, not the default \<open>(0, 1, 0)\<close>. A focus target at
  the origin and a camera at \<open>(0.005, 0, 0)\<close> do not coincide; the approach direction is
  the default \<open>(0, 0, 1)\<close>, not the normalized difference \<open>(1, 0, 0)\<close>.
\<close>

theorem direction_defaults_counterexample:
  "multiplyScalar (add_v (Vector3 0.002 0 0) (Vector3 0 0 0)) 0.5 = Vector3 0.001 0 0
   \<and> length_v (Vector3 0.001 0 0) = 0.001
   \<and> curveNormal (Vector3 0.001 0 0) = Some (Vector3 1 0 0)
   \<and> Vector3 0.005 0 0 \<noteq> Vector3 0 0 0
   \<and> length_v (sub_v (Vector3 0.005 0 0) (Vector3 0 0 0)) = 0.005
   \<and> normalize_v (sub_v (Vector3 0.005 0 0) (Vector3 0 0 0)) = Some (Vector3 1 0 0)
   \<and> approachDirection (Vector3 0.005 0 0) (Vector3 0 0 0) = Some (Vector3 0 0 1)"
proof -
  have m: "multiplyScalar (add_v (Vector3 0.002 0 0) (Vector3 0 0 0)) 0.5 = Vector3 0.001 0 0"
    by (simp add: multiplyScalar_def add_v_def)
  have l1: "length_v (Vector3 0.001 0 0) = 0.001"
    by (rule length_v_x) simp
  have n1: "curveNormal (Vector3 0.001 0 0) = Some (Vector3 1 0 0)"
    unfolding curveNormal_eq l1 by (simp add: multiplyScalar_def)
  have ne: "Vector3 0.005 0 0 \<noteq> Vector3 0 0 0" by simp
  have sb: "sub_v (Vector3 0.005 0 0) (Vector3 0 0 0) = Vector3 0.005 0 0"
    by (simp add: sub_v_def)
  have l2: "length_v (Vector3 0.005 0 0) = 0.005"
    by (rule length_v_x) simp
  have n2: "normalize_v (Vector3 0.005 0 0) = Some (Vector3 1 0 0)"
    unfolding normalize_v_Some l2 by (simp add: multiplyScalar_def)
  have a: "approachDirection (Vector3 0.005 0 0) (Vector3 0 0 0) = Some (Vector3 0 0 1)"
    unfolding approachDirection_eq sb by (simp add: lengthSq_def)
  from m l1 n1 ne l2 n2 a show ?thesis unfolding sb by (intro conjI)
qed

end
